theory Spec2Isabelle
  imports Main "HOL-Library.Sublist" "HOL-Library.List_Lexorder" "HOL-Library.Char_ord"
begin

unbundle bit_operations_syntax

section \<open>Go values\<close>

text \<open>
  A Go \<^verbatim>\<open>string\<close> and a \<^verbatim>\<open>[]byte\<close> are byte sequences; both are modelled by
  \<^typ>\<open>string\<close>, whose characters are single bytes. \<^verbatim>\<open>len\<close> is \<^const>\<open>length\<close>,
  slicing \<^verbatim>\<open>s[n:]\<close> is \<^const>\<open>drop\<close>, and Go's string comparison is the bytewise
  lexicographic order on \<^typ>\<open>string\<close>.
\<close>

text \<open>
  The error values the package builds: \<^verbatim>\<open>&Error{msg, Status}\<close> of domain.go,
  \<^verbatim>\<open>errors.New(msg)\<close>, \<^verbatim>\<open>fmt.Errorf(msg + ": %w", err)\<close>, the errors the \<^verbatim>\<open>os\<close>
  calls return (by their errno) and the error of the JSON codec.
\<close>

datatype errno = ENOENT | ENOTDIR | EEXIST | EISDIR | EINVAL

datatype goerr =
    DomainError string nat
  | ErrorsNew string
  | Errorf string goerr
  | PathError errno
  | JsonError

definition StatusBadRequest :: nat where "StatusBadRequest = 400"
definition StatusNotFound :: nat where "StatusNotFound = 404"
definition StatusConflict :: nat where "StatusConflict = 409"

text \<open>The \<^verbatim>\<open>metadata\<close> struct of the object store (its JSON tags name the fields on disk).\<close>

record metadata =
  ContentHash :: string
  ContentSize :: int
  OriginalKey :: string
  LastModified :: int

text \<open>
  The parts of Go's standard library whose code is not in the repository and whose
  results the package only passes on are parameters of the model:
  \<^verbatim>\<open>sha256.Sum256\<close> (its result is a \<^verbatim>\<open>[32]byte\<close>; \<open>digestBytes\<close> below reads exactly 32
  bytes of what the parameter returns),
  \<^verbatim>\<open>json.Marshal\<close> and \<^verbatim>\<open>json.Unmarshal\<close> on \<^verbatim>\<open>metadata\<close> (\<open>None\<close> is an error), and
  the tables of \<^verbatim>\<open>unicode.IsLower\<close> and \<^verbatim>\<open>unicode.IsDigit\<close> for the code points above
  Latin-1 (below, both functions are written out).
\<close>

record golib =
  sha256_Sum256 :: "string \<Rightarrow> string"
  json_Marshal :: "metadata \<Rightarrow> string option"
  json_Unmarshal :: "string \<Rightarrow> metadata option"
  unicode_Lower :: "nat \<Rightarrow> bool"
  unicode_Digit :: "nat \<Rightarrow> bool"

section \<open>The functions of package strings, sort and encoding/hex that the code calls\<close>

definition HasPrefix :: "string \<Rightarrow> string \<Rightarrow> bool" where
  "HasPrefix s p = prefix p s"

definition HasSuffix :: "string \<Rightarrow> string \<Rightarrow> bool" where
  "HasSuffix s x = suffix x s"

text \<open>
  \<^verbatim>\<open>strings.Split(s, sep)\<close> for a separator of one byte, which is every separator the
  code passes (\<^verbatim>\<open>","\<close>, \<^verbatim>\<open>"?"\<close>, \<^verbatim>\<open>"&"\<close>, \<^verbatim>\<open>";"\<close>, \<^verbatim>\<open>"/"\<close>). The result is never
  empty: \<^verbatim>\<open>Split("", sep)\<close> is one empty string.
\<close>

fun Split :: "string \<Rightarrow> char \<Rightarrow> string list" where
  "Split [] sep = [[]]"
| "Split (c # cs) sep =
     (case Split cs sep of
        [] \<Rightarrow> [[c]]
      | t # ts \<Rightarrow> if c = sep then [] # t # ts else (c # t) # ts)"

text \<open>\<^verbatim>\<open>strings.SplitN(s, sep, 2)\<close>, again for a separator of one byte.\<close>

definition SplitN2 :: "string \<Rightarrow> char \<Rightarrow> string list" where
  "SplitN2 s sep =
     (if sep \<in> set s then [takeWhile (\<lambda>c. c \<noteq> sep) s, tl (dropWhile (\<lambda>c. c \<noteq> sep) s)]
      else [s])"

text \<open>
  \<^verbatim>\<open>strings.TrimSpace\<close> removes the leading and the trailing white space that
  \<^verbatim>\<open>unicode.IsSpace\<close> accepts. A string begins (ends) with such a code point exactly
  when it begins (ends) with its UTF-8 encoding, so the model strips these encodings:
  the six ASCII spaces, U+0085, U+00A0, U+1680, U+2000 to U+200A, U+2028, U+2029,
  U+202F, U+205F and U+3000.
\<close>

definition spaceEncodings :: "string list" where
  "spaceEncodings =
     [[CHR 0x09], [CHR 0x0A], [CHR 0x0B], [CHR 0x0C], [CHR 0x0D], [CHR 0x20],
      [CHR 0xC2, CHR 0x85], [CHR 0xC2, CHR 0xA0], [CHR 0xE1, CHR 0x9A, CHR 0x80],
      [CHR 0xE2, CHR 0x80, CHR 0x80], [CHR 0xE2, CHR 0x80, CHR 0x81],
      [CHR 0xE2, CHR 0x80, CHR 0x82], [CHR 0xE2, CHR 0x80, CHR 0x83],
      [CHR 0xE2, CHR 0x80, CHR 0x84], [CHR 0xE2, CHR 0x80, CHR 0x85],
      [CHR 0xE2, CHR 0x80, CHR 0x86], [CHR 0xE2, CHR 0x80, CHR 0x87],
      [CHR 0xE2, CHR 0x80, CHR 0x88], [CHR 0xE2, CHR 0x80, CHR 0x89],
      [CHR 0xE2, CHR 0x80, CHR 0x8A], [CHR 0xE2, CHR 0x80, CHR 0xA8],
      [CHR 0xE2, CHR 0x80, CHR 0xA9], [CHR 0xE2, CHR 0x80, CHR 0xAF],
      [CHR 0xE2, CHR 0x81, CHR 0x9F], [CHR 0xE3, CHR 0x80, CHR 0x80]]"

definition leadingSpace :: "string list \<Rightarrow> string \<Rightarrow> nat" where
  "leadingSpace encs s =
     (case filter (\<lambda>e. prefix e s) encs of [] \<Rightarrow> 0 | e # _ \<Rightarrow> length e)"

function trimLeftWith :: "string list \<Rightarrow> string \<Rightarrow> string" where
  "trimLeftWith encs s =
     (if leadingSpace encs s = 0 then s
      else trimLeftWith encs (drop (leadingSpace encs s) s))"
  by pat_completeness auto
termination
proof (relation "measure (\<lambda>(encs, s). length s)")
  show "wf (measure (\<lambda>(encs, s). length s))" by simp
next
  fix encs :: "string list" and s :: string
  assume a: "leadingSpace encs s \<noteq> 0"
  have "s \<noteq> []"
  proof
    assume "s = []"
    then have "filter (\<lambda>e. prefix e s) encs = filter (\<lambda>e. e = []) encs" by simp
    then have "leadingSpace encs s = 0"
      by (cases "filter (\<lambda>e. e = []) encs")
         (auto simp: leadingSpace_def dest: filter_eq_ConsD)
    with a show False by simp
  qed
  with a show "((encs, drop (leadingSpace encs s) s), (encs, s)) \<in> measure (\<lambda>(encs, s). length s)"
    by simp
qed

definition TrimSpace :: "string \<Rightarrow> string" where
  "TrimSpace s =
     rev (trimLeftWith (map rev spaceEncodings) (rev (trimLeftWith spaceEncodings s)))"

text \<open>\<^verbatim>\<open>hex.EncodeToString\<close>: two lowercase hexadecimal digits for every byte.\<close>

definition hexDigit :: "nat \<Rightarrow> char" where
  "hexDigit n = ''0123456789abcdef'' ! (n mod 16)"

definition EncodeToString :: "string \<Rightarrow> string" where
  "EncodeToString bs =
     concat (map (\<lambda>b. [hexDigit (of_char b div 16), hexDigit (of_char b mod 16)]) bs)"

text \<open>
  The 32 bytes of a digest (\<^verbatim>\<open>hash[:]\<close>): an array of type \<^verbatim>\<open>[32]byte\<close> holds 32 bytes
  whatever the function that fills it, so the model reads the first 32 bytes, and zero
  bytes where there are fewer.
\<close>

definition digestBytes :: "string \<Rightarrow> string" where
  "digestBytes d = take 32 (d @ replicate 32 (CHR 0x00))"

text \<open>domain.go: \<^verbatim>\<open>Sha256Hash\<close>.\<close>

definition Sha256Hash :: "golib \<Rightarrow> string \<Rightarrow> string" where
  "Sha256Hash L data = EncodeToString (digestBytes (sha256_Sum256 L data))"

section \<open>The request authenticator\<close>

definition signAlgorithm :: string where
  "signAlgorithm = ''AWS4-HMAC-SHA256''"

record Auth =
  accessKey :: string
  secretKey :: string

record authHeader =
  credential :: string
  signedHeaders :: string
  signature :: string

text \<open>Reading a Go \<^verbatim>\<open>map[string]string\<close>: a missing key gives the empty string.\<close>

definition mapGet :: "(string \<rightharpoonup> string) \<Rightarrow> string \<Rightarrow> string" where
  "mapGet m k = (case m k of None \<Rightarrow> [] | Some v \<Rightarrow> v)"

text \<open>The loop of \<^verbatim>\<open>parseAuthHeader\<close> that fills \<^verbatim>\<open>kv\<close> from the comma-separated fields.\<close>

fun parseFields :: "string list \<Rightarrow> (string \<rightharpoonup> string) \<Rightarrow> (string \<rightharpoonup> string)" where
  "parseFields [] kv = kv"
| "parseFields (field # rest) kv =
     (let parts = SplitN2 (TrimSpace field) (CHR ''='')
      in if length parts \<noteq> 2 then parseFields rest kv
         else parseFields rest (kv(parts ! 0 \<mapsto> parts ! 1)))"

text \<open>
  The map \<^verbatim>\<open>kv\<close> that \<^verbatim>\<open>parseAuthHeader\<close> builds from a header that carries the
  algorithm prefix (its lines 39 to 50).
\<close>

definition headerFields :: "string \<Rightarrow> (string \<rightharpoonup> string)" where
  "headerFields header =
     parseFields (Split (drop (length (signAlgorithm @ '' '')) header) (CHR '','')) Map.empty"

definition parseAuthHeader :: "Auth \<Rightarrow> string \<Rightarrow> goerr + authHeader" where
  "parseAuthHeader a header =
     (let prefix0 = signAlgorithm @ '' ''
      in if \<not> HasPrefix header prefix0 then Inl (ErrorsNew ''signing algorithm not supported'')
         else
           let kv = headerFields header;
               cred = mapGet kv ''Credential'';
               prefix1 = accessKey a @ ''/''
           in if \<not> HasPrefix cred prefix1 then Inl (ErrorsNew ''invalid access key'')
              else Inr \<lparr>credential = drop (length prefix1) cred,
                        signedHeaders = mapGet kv ''SignedHeaders'',
                        signature = mapGet kv ''Signature''\<rparr>)"

text \<open>
  \<^verbatim>\<open>hmacHash\<close>: HMAC (RFC 2104) over SHA-256, as \<^verbatim>\<open>hmac.New(sha256.New, key)\<close> computes
  it: block size 64, a longer key is hashed first, the key is padded with zero bytes.
\<close>

fun xorByte :: "char \<Rightarrow> char \<Rightarrow> char" where
  "xorByte (Char a0 a1 a2 a3 a4 a5 a6 a7) (Char b0 b1 b2 b3 b4 b5 b6 b7) =
     Char (a0 \<noteq> b0) (a1 \<noteq> b1) (a2 \<noteq> b2) (a3 \<noteq> b3)
          (a4 \<noteq> b4) (a5 \<noteq> b5) (a6 \<noteq> b6) (a7 \<noteq> b7)"

definition xorBytes :: "char \<Rightarrow> string \<Rightarrow> string" where
  "xorBytes p bs = map (xorByte p) bs"

definition hmacKey :: "golib \<Rightarrow> string \<Rightarrow> string" where
  "hmacKey L key =
     (let k = (if length key > 64 then digestBytes (sha256_Sum256 L key) else key)
      in k @ replicate (64 - length k) (CHR 0x00))"

definition hmacHash :: "golib \<Rightarrow> string \<Rightarrow> string \<Rightarrow> string" where
  "hmacHash L key data =
     (let k = hmacKey L key;
          inner = digestBytes (sha256_Sum256 L (xorBytes (CHR 0x36) k @ data))
      in digestBytes (sha256_Sum256 L (xorBytes (CHR 0x5C) k @ inner)))"

definition signingKey :: "golib \<Rightarrow> Auth \<Rightarrow> string \<Rightarrow> string" where
  "signingKey L a cred =
     foldl (\<lambda>key v. hmacHash L key v) (''AWS4'' @ secretKey a) (Split cred (CHR ''/''))"

definition canonicalUri :: "string \<Rightarrow> string" where
  "canonicalUri uri = (if length uri < 1 then ''/'' else Split uri (CHR ''?'') ! 0)"

definition canonicalQuery :: "string \<Rightarrow> string" where
  "canonicalQuery uri =
     (let parts = Split uri (CHR ''?'');
          query = (if length parts > 1 then parts ! 1 else []);
          sorted_parts = sort (Split query (CHR ''&''));
          str = foldl (\<lambda>str v. str @ v @ ''&'') [] sorted_parts
      in if length str > 0 then take (length str - 1) str else str)"

definition newline :: string where
  "newline = [CHR 0x0A]"

definition canonicalHeaders :: "(string \<rightharpoonup> string) \<Rightarrow> string list \<Rightarrow> string" where
  "canonicalHeaders headers signedNames =
     foldl (\<lambda>result key. result @ key @ '':'' @ TrimSpace (mapGet headers key) @ newline)
       [] signedNames"

definition canonicalRequest ::
  "string \<Rightarrow> string \<Rightarrow> (string \<rightharpoonup> string) \<Rightarrow> string \<Rightarrow> string \<Rightarrow> string" where
  "canonicalRequest method uri headers signedStr body =
     method @ newline @
     canonicalUri uri @ newline @
     canonicalQuery uri @ newline @
     canonicalHeaders headers (Split signedStr (CHR '';'')) @ newline @
     signedStr @ newline @ body"

definition strToSign :: "golib \<Rightarrow> string \<Rightarrow> string \<Rightarrow> string \<Rightarrow> string \<Rightarrow> string" where
  "strToSign L algo date cred req =
     algo @ newline @ date @ newline @ cred @ newline @ Sha256Hash L req"

text \<open>The signature \<^verbatim>\<open>Validate\<close> computes for a parsed header (its lines 145 to 149).\<close>

definition computedSignature ::
  "golib \<Rightarrow> Auth \<Rightarrow> string \<Rightarrow> string \<Rightarrow> (string \<rightharpoonup> string) \<Rightarrow> string \<Rightarrow> authHeader \<Rightarrow> string"
  where
  "computedSignature L a method uri headers body ah =
     (let req = canonicalRequest method uri headers (signedHeaders ah) body;
          str = strToSign L signAlgorithm (mapGet headers ''x-amz-date'') (credential ah) req;
          key = signingKey L a (credential ah)
      in EncodeToString (hmacHash L key str))"

text \<open>\<^verbatim>\<open>Validate\<close>: \<open>None\<close> is the \<^verbatim>\<open>nil\<close> error (the request is accepted).\<close>

definition Validate ::
  "golib \<Rightarrow> Auth \<Rightarrow> string \<Rightarrow> string \<Rightarrow> (string \<rightharpoonup> string) \<Rightarrow> string \<Rightarrow> goerr option"
  where
  "Validate L a method uri headers body =
     (if length (mapGet headers ''authorization'') < 1
      then Some (ErrorsNew ''authorization header missing'')
      else
        case parseAuthHeader a (mapGet headers ''authorization'') of
          Inl err \<Rightarrow> Some err
        | Inr ah \<Rightarrow>
            if computedSignature L a method uri headers body ah \<noteq> signature ah
            then Some (ErrorsNew ''invalid signature'')
            else None)"

text \<open>
  The header \<^verbatim>\<open>parseAuthHeader\<close> returns when both of its checks pass (its lines 57 to 63).
\<close>

definition parsedHeader :: "Auth \<Rightarrow> string \<Rightarrow> authHeader" where
  "parsedHeader a header =
     \<lparr>credential = drop (length (accessKey a @ ''/'')) (mapGet (headerFields header) ''Credential''),
      signedHeaders = mapGet (headerFields header) ''SignedHeaders'',
      signature = mapGet (headerFields header) ''Signature''\<rparr>"

text \<open>The spec's names for the four errors of \<^verbatim>\<open>Validate\<close>, by the error values the code builds.\<close>

definition MissingAuthHeader :: goerr where
  "MissingAuthHeader = ErrorsNew ''authorization header missing''"

definition UnsupportedAlgorithm :: goerr where
  "UnsupportedAlgorithm = ErrorsNew ''signing algorithm not supported''"

definition InvalidAccessKey :: goerr where
  "InvalidAccessKey = ErrorsNew ''invalid access key''"

definition InvalidSignature :: goerr where
  "InvalidSignature = ErrorsNew ''invalid signature''"

section \<open>The bucket naming policy\<close>

text \<open>
  \<^verbatim>\<open>for _, char := range name\<close> decodes the string as UTF-8, one code point at a time.
  \<open>decodeRune\<close> is \<^verbatim>\<open>utf8.DecodeRuneInString\<close>: the code point and the number of bytes
  read; a byte that starts no valid encoding gives U+FFFD and the width 1. Code points
  are integers.
\<close>

definition RuneError :: int where
  "RuneError = 0xFFFD"

definition inRange :: "int \<Rightarrow> int \<Rightarrow> char \<Rightarrow> bool" where
  "inRange lo hi c = (lo \<le> of_char c \<and> of_char c \<le> hi)"

fun decodeRune :: "string \<Rightarrow> int \<times> nat" where
  "decodeRune [] = (RuneError, 0)"
| "decodeRune (c0 # rest) =
     (let b0 = of_char c0 :: int in
      if b0 < 0x80 then (b0, 1)
      else if b0 < 0xC2 then (RuneError, 1)
      else if b0 < 0xE0 then
        (case rest of
           c1 # _ \<Rightarrow>
             if inRange 0x80 0xBF c1 then ((b0 - 0xC0) * 64 + (of_char c1 - 0x80), 2)
             else (RuneError, 1)
         | _ \<Rightarrow> (RuneError, 1))
      else if b0 < 0xF0 then
        (case rest of
           c1 # c2 # _ \<Rightarrow>
             if inRange (if b0 = 0xE0 then 0xA0 else 0x80) (if b0 = 0xED then 0x9F else 0xBF) c1
                \<and> inRange 0x80 0xBF c2
             then ((b0 - 0xE0) * 4096 + (of_char c1 - 0x80) * 64 + (of_char c2 - 0x80), 3)
             else (RuneError, 1)
         | _ \<Rightarrow> (RuneError, 1))
      else if b0 < 0xF5 then
        (case rest of
           c1 # c2 # c3 # _ \<Rightarrow>
             if inRange (if b0 = 0xF0 then 0x90 else 0x80) (if b0 = 0xF4 then 0x8F else 0xBF) c1
                \<and> inRange 0x80 0xBF c2 \<and> inRange 0x80 0xBF c3
             then ((b0 - 0xF0) * 262144 + (of_char c1 - 0x80) * 4096
                     + (of_char c2 - 0x80) * 64 + (of_char c3 - 0x80), 4)
             else (RuneError, 1)
         | _ \<Rightarrow> (RuneError, 1))
      else (RuneError, 1))"

fun runes :: "string \<Rightarrow> int list" where
  "runes [] = []"
| "runes (c # cs) =
     (case decodeRune (c # cs) of (r, w) \<Rightarrow> r # runes (drop (w - 1) cs))"

text \<open>
  \<^verbatim>\<open>unicode.IsLower\<close> and \<^verbatim>\<open>unicode.IsDigit\<close>: up to U+00FF Go decides from a fixed table
  (the lowercase letters there are a to z, U+00B5, U+00DF to U+00F6 and U+00F8 to U+00FF;
  the digits are 0 to 9), above it from the range tables, which are parameters.
\<close>

definition IsLower :: "golib \<Rightarrow> int \<Rightarrow> bool" where
  "IsLower L r =
     (if 0 \<le> r \<and> r \<le> 0xFF
      then (0x61 \<le> r \<and> r \<le> 0x7A) \<or> r = 0xB5 \<or> (0xDF \<le> r \<and> r \<le> 0xF6) \<or> (0xF8 \<le> r \<and> r \<le> 0xFF)
      else unicode_Lower L (nat r))"

definition IsDigit :: "golib \<Rightarrow> int \<Rightarrow> bool" where
  "IsDigit L r =
     (if 0 \<le> r \<and> r \<le> 0xFF then 0x30 \<le> r \<and> r \<le> 0x39 else unicode_Digit L (nat r))"

fun Contains :: "string \<Rightarrow> string \<Rightarrow> bool" where
  "Contains [] sub = (sub = [])"
| "Contains (c # cs) sub = (prefix sub (c # cs) \<or> Contains cs sub)"

text \<open>
  \<^verbatim>\<open>net.ParseIP(name) != nil\<close>, for a string without a colon (\<^verbatim>\<open>validName\<close> has rejected
  every name with a colon before it calls \<^verbatim>\<open>net.ParseIP\<close>): the string is an IPv4 address
  in dotted decimal, four fields of digits, each at most 255 and without a leading
  zero.
\<close>

definition isDigitChar :: "char \<Rightarrow> bool" where
  "isDigitChar c = inRange 0x30 0x39 c"

definition decimalValue :: "string \<Rightarrow> int" where
  "decimalValue f = foldl (\<lambda>v c. v * 10 + (of_char c - 0x30)) 0 f"

definition ipv4Field :: "string \<Rightarrow> bool" where
  "ipv4Field f =
     (f \<noteq> [] \<and> list_all isDigitChar f \<and> (length f = 1 \<or> hd f \<noteq> CHR ''0'')
      \<and> length f \<le> 3 \<and> decimalValue f \<le> 255)"

definition ParseIP :: "string \<Rightarrow> bool" where
  "ParseIP s = (length (Split s (CHR ''.'')) = 4 \<and> list_all ipv4Field (Split s (CHR ''.'')))"

definition quoted :: "string \<Rightarrow> string" where
  "quoted p = [CHR 0x27] @ p @ [CHR 0x27]"

definition validRune :: "golib \<Rightarrow> int \<Rightarrow> bool" where
  "validRune L r = (IsLower L r \<or> IsDigit L r \<or> r = 0x2E \<or> r = 0x2D)"

text \<open>\<^verbatim>\<open>validName\<close>: \<open>None\<close> is \<^verbatim>\<open>nil\<close>, the name is accepted.\<close>

definition validName :: "golib \<Rightarrow> string \<Rightarrow> goerr option" where
  "validName L name =
     (if length name < 3
      then Some (DomainError ''bucket name must be at least 3 characters long'' StatusBadRequest)
      else if length name > 63
      then Some (DomainError ''bucket name must be not longer than 63 characters'' StatusBadRequest)
      else if \<not> list_all (validRune L) (runes name)
      then Some (DomainError
        ''bucket name can consist only of lowercase letters, numbers, periods and hyphens''
        StatusBadRequest)
      else if \<not> IsLower L (of_char (name ! 0)) \<and> \<not> IsDigit L (of_char (name ! 0))
      then Some (DomainError ''bucket name must begin with a letter or number'' StatusBadRequest)
      else if \<not> IsLower L (of_char (name ! (length name - 1)))
              \<and> \<not> IsDigit L (of_char (name ! (length name - 1)))
      then Some (DomainError ''bucket name must end with a letter or number'' StatusBadRequest)
      else if Contains name ''..''
      then Some (DomainError ''bucket name can not contain two adjacent periods'' StatusBadRequest)
      else if ParseIP name
      then Some (DomainError ''bucket name can not be formatted as an IP address'' StatusBadRequest)
      else
        case filter (\<lambda>p. HasPrefix name p) [''xn--'', ''sthree-'', ''amzn-s3-demo-''] of
          p # _ \<Rightarrow> Some (DomainError (''bucket name can not begin with the prefix: '' @ quoted p)
                         StatusBadRequest)
        | [] \<Rightarrow>
            (case filter (\<lambda>x. HasSuffix name x) [''-s3alias'', ''--ol-s3'', ''--x-s3'', ''--table-s3''] of
               x # _ \<Rightarrow> Some (DomainError (''bucket name can not end with the suffix: '' @ quoted x)
                              StatusBadRequest)
             | [] \<Rightarrow> None))"

section \<open>The file system\<close>

text \<open>
  The store keeps everything in files, so the state of the model is a file system: the
  node (a directory, or a regular file with its bytes) at every absolute location, a
  location being the list of names from the root, and the working directory of the
  process. A path string is resolved as the kernel does it: component by component,
  empty components and \<^verbatim>\<open>.\<close> stay, \<^verbatim>\<open>..\<close> goes to the parent, and every component is
  looked up in a directory that exists. Symbolic links, permissions and length limits
  are not modelled.
\<close>

datatype node = Dir | File string

record fsys =
  nodes :: "string list \<Rightarrow> node option"
  cwd :: "string list"

definition step :: "string list \<Rightarrow> string \<Rightarrow> string list" where
  "step cur c = (if c = [] \<or> c = ''.'' then cur else if c = ''..'' then butlast cur else cur @ [c])"

fun walk :: "(string list \<Rightarrow> node option) \<Rightarrow> string list \<Rightarrow> string list \<Rightarrow> errno + string list"
  where
  "walk fs cur [] = Inr cur"
| "walk fs cur (c # cs) =
     (case fs cur of
        None \<Rightarrow> Inl ENOENT
      | Some (File d) \<Rightarrow> Inl ENOTDIR
      | Some Dir \<Rightarrow> walk fs (step cur c) cs)"

definition start :: "fsys \<Rightarrow> string \<Rightarrow> string list" where
  "start st p = (if HasPrefix p ''/'' then [] else cwd st)"

text \<open>The location a path names, when every component before the last is a directory.\<close>

definition resolve :: "fsys \<Rightarrow> string \<Rightarrow> errno + string list" where
  "resolve st p = (if p = [] then Inl ENOENT else walk (nodes st) (start st p) (Split p (CHR ''/'')))"

text \<open>\<^verbatim>\<open>os.Stat\<close>: the node at the path, or the error.\<close>

definition Stat :: "fsys \<Rightarrow> string \<Rightarrow> errno + node" where
  "Stat st p =
     (case resolve st p of
        Inl e \<Rightarrow> Inl e
      | Inr q \<Rightarrow> (case nodes st q of None \<Rightarrow> Inl ENOENT | Some n \<Rightarrow> Inr n))"

text \<open>\<^verbatim>\<open>os.ReadFile\<close>.\<close>

definition ReadFile :: "fsys \<Rightarrow> string \<Rightarrow> goerr + string" where
  "ReadFile st p =
     (case Stat st p of
        Inl e \<Rightarrow> Inl (PathError e)
      | Inr Dir \<Rightarrow> Inl (PathError EISDIR)
      | Inr (File d) \<Rightarrow> Inr d)"

text \<open>The directory that holds the last of the components \<open>cs\<close> of a path.\<close>

definition parentDir :: "fsys \<Rightarrow> string \<Rightarrow> string list \<Rightarrow> errno + string list" where
  "parentDir st p cs =
     (case walk (nodes st) (start st p) (butlast cs) of
        Inl e \<Rightarrow> Inl e
      | Inr q \<Rightarrow>
          (case nodes st q of
             None \<Rightarrow> Inl ENOENT
           | Some (File d) \<Rightarrow> Inl ENOTDIR
           | Some Dir \<Rightarrow> Inr q))"

definition isDots :: "string \<Rightarrow> bool" where
  "isDots c = (c = [] \<or> c = ''.'' \<or> c = ''..'')"

text \<open>
  \<^verbatim>\<open>os.WriteFile\<close>: opens the file for writing, creating or truncating it, and writes the
  bytes. Returns the error and the new state.
\<close>

definition WriteFile :: "fsys \<Rightarrow> string \<Rightarrow> string \<Rightarrow> goerr option \<times> fsys" where
  "WriteFile st p bytes =
     (if p = [] then (Some (PathError ENOENT), st)
      else
        case parentDir st p (Split p (CHR ''/'')) of
          Inl e \<Rightarrow> (Some (PathError e), st)
        | Inr q \<Rightarrow>
            if isDots (last (Split p (CHR ''/''))) then (Some (PathError EISDIR), st)
            else
              case nodes st (q @ [last (Split p (CHR ''/''))]) of
                Some Dir \<Rightarrow> (Some (PathError EISDIR), st)
              | _ \<Rightarrow>
                  (None, st\<lparr>nodes := (nodes st)(q @ [last (Split p (CHR ''/''))] \<mapsto> File bytes)\<rparr>))"

text \<open>The components of a path without its trailing slashes.\<close>

definition components :: "string \<Rightarrow> string list" where
  "components p = rev (dropWhile (\<lambda>c. c = []) (rev (Split p (CHR ''/''))))"

text \<open>\<^verbatim>\<open>os.Mkdir\<close>: creates one directory in a directory that exists.\<close>

definition Mkdir :: "fsys \<Rightarrow> string \<Rightarrow> errno option \<times> fsys" where
  "Mkdir st p =
     (if p = [] then (Some ENOENT, st)
      else if components p = [] then (Some EEXIST, st)
      else
        case parentDir st p (components p) of
          Inl e \<Rightarrow> (Some e, st)
        | Inr q \<Rightarrow>
            if isDots (last (components p)) then (Some EEXIST, st)
            else
              case nodes st (q @ [last (components p)]) of
                Some n \<Rightarrow> (Some EEXIST, st)
              | None \<Rightarrow> (None, st\<lparr>nodes := (nodes st)(q @ [last (components p)] \<mapsto> Dir)\<rparr>))"

text \<open>
  \<^verbatim>\<open>os.MkdirAll\<close>, as the Go library writes it: nothing to do when the path is a
  directory, an error when it is a file; otherwise the parent, which is the path cut
  before its last component, is made first, then the directory itself.
\<close>

definition mkdirParent :: "string \<Rightarrow> string" where
  "mkdirParent p =
     butlast (rev (dropWhile (\<lambda>c. c \<noteq> CHR ''/'') (dropWhile (\<lambda>c. c = CHR ''/'') (rev p))))"

lemma mkdirParent_shorter: "p \<noteq> [] \<Longrightarrow> length (mkdirParent p) < length p"
proof -
  assume "p \<noteq> []"
  have "length (dropWhile (\<lambda>c. c \<noteq> CHR ''/'') (dropWhile (\<lambda>c. c = CHR ''/'') (rev p)))
          \<le> length (dropWhile (\<lambda>c. c = CHR ''/'') (rev p))"
    by (rule length_dropWhile_le)
  also have "\<dots> \<le> length (rev p)"
    by (rule length_dropWhile_le)
  finally have "length (mkdirParent p) \<le> length p - 1"
    unfolding mkdirParent_def by (simp del: butlast_rev)
  with \<open>p \<noteq> []\<close> show ?thesis
    by (cases p) auto
qed

definition mkdirLast :: "fsys \<Rightarrow> string \<Rightarrow> errno option \<times> fsys" where
  "mkdirLast st p =
     (case Mkdir st p of
        (None, st') \<Rightarrow> (None, st')
      | (Some e, st') \<Rightarrow> (case Stat st p of Inr Dir \<Rightarrow> (None, st) | _ \<Rightarrow> (Some e, st)))"

function MkdirAll :: "fsys \<Rightarrow> string \<Rightarrow> errno option \<times> fsys" where
  "MkdirAll st p =
     (case Stat st p of
        Inr Dir \<Rightarrow> (None, st)
      | Inr (File d) \<Rightarrow> (Some ENOTDIR, st)
      | Inl e \<Rightarrow>
          if p \<noteq> [] \<and> mkdirParent p \<noteq> [] then
            (case MkdirAll st (mkdirParent p) of
               (Some e', st') \<Rightarrow> (Some e', st')
             | (None, st') \<Rightarrow> mkdirLast st' p)
          else mkdirLast st p)"
  by pat_completeness auto
termination
  by (relation "measure (\<lambda>(st, p). length p)") (auto simp: mkdirParent_shorter)

text \<open>
  \<^verbatim>\<open>os.RemoveAll\<close>: removes the path and everything below it; a path that does not exist
  is no error; a path that ends in a dot is refused.
\<close>

definition endsWithDot :: "string \<Rightarrow> bool" where
  "endsWithDot p =
     (p = ''.'' \<or> (length p \<ge> 2 \<and> p ! (length p - 1) = CHR ''.'' \<and> p ! (length p - 2) = CHR ''/''))"

definition RemoveAll :: "fsys \<Rightarrow> string \<Rightarrow> errno option \<times> fsys" where
  "RemoveAll st p =
     (if p = [] then (None, st)
      else if endsWithDot p then (Some EINVAL, st)
      else if components p = [] \<or> isDots (last (components p)) then (Some EINVAL, st)
      else
        case parentDir st p (components p) of
          Inl ENOENT \<Rightarrow> (None, st)
        | Inl e \<Rightarrow> (Some e, st)
        | Inr q \<Rightarrow>
            (case nodes st (q @ [last (components p)]) of
               None \<Rightarrow> (None, st)
             | Some n \<Rightarrow>
                 if n \<noteq> Dir \<and> components p \<noteq> Split p (CHR ''/'') then (Some ENOTDIR, st)
                 else (None, st\<lparr>nodes := (\<lambda>x. if prefix (q @ [last (components p)]) x then None
                                               else nodes st x)\<rparr>)))"

section \<open>The object store\<close>

record Storage =
  root :: string

text \<open>The spec's names for the errors of the store, by the error values the code builds.\<close>

definition BucketNotFound :: goerr where
  "BucketNotFound = DomainError ''requested bucket does not exist'' StatusNotFound"

definition ObjectNotFound :: goerr where
  "ObjectNotFound = DomainError ''object under requested key does not exist'' StatusNotFound"

definition BucketAlreadyExists :: goerr where
  "BucketAlreadyExists = DomainError ''requested bucket name is not available'' StatusConflict"

definition IntegrityError :: goerr where
  "IntegrityError = ErrorsNew ''content checksum mismatch''"

text \<open>storage.go: \<^verbatim>\<open>NewStorage\<close>. The path must name a directory that exists.\<close>

definition NewStorage :: "string \<Rightarrow> fsys \<Rightarrow> goerr + Storage" where
  "NewStorage path st =
     (case Stat st path of
        Inl ENOENT \<Rightarrow> Inl (ErrorsNew (''path '' @ quoted path @ '' does not exist''))
      | Inl e \<Rightarrow> Inl (PathError e)
      | Inr (File d) \<Rightarrow> Inl (ErrorsNew (''path '' @ quoted path @ '' is not a directory''))
      | Inr Dir \<Rightarrow> Inr \<lparr>root = path\<rparr>)"

definition osError :: "errno option \<times> fsys \<Rightarrow> goerr option \<times> fsys" where
  "osError r = (map_option PathError (fst r), snd r)"

definition existPath :: "Storage \<Rightarrow> string \<Rightarrow> fsys \<Rightarrow> bool" where
  "existPath s p st = (case Stat st (root s @ ''/'' @ p) of Inl e \<Rightarrow> False | Inr n \<Rightarrow> True)"

definition NewBucket :: "golib \<Rightarrow> Storage \<Rightarrow> string \<Rightarrow> fsys \<Rightarrow> goerr option \<times> fsys" where
  "NewBucket L s name st =
     (case validName L name of
        Some err \<Rightarrow> (Some err, st)
      | None \<Rightarrow>
          if existPath s name st then (Some BucketAlreadyExists, st)
          else osError (MkdirAll st (root s @ ''/'' @ name)))"

definition Get :: "golib \<Rightarrow> Storage \<Rightarrow> string \<Rightarrow> string \<Rightarrow> fsys \<Rightarrow> goerr + string" where
  "Get L s bucket key st =
     (if \<not> existPath s bucket st then Inl BucketNotFound
      else
        let hash = Sha256Hash L key in
        if \<not> existPath s (bucket @ ''/'' @ hash) st then Inl ObjectNotFound
        else
          let dir = root s @ ''/'' @ bucket @ ''/'' @ hash in
          case ReadFile st (dir @ ''/body'') of
            Inl err \<Rightarrow> Inl (Errorf ''could not read data file'' err)
          | Inr body \<Rightarrow>
              (case ReadFile st (dir @ ''/metadata.json'') of
                 Inl err \<Rightarrow> Inl (Errorf ''could not read metadata file'' err)
               | Inr b \<Rightarrow>
                   (case json_Unmarshal L b of
                      None \<Rightarrow> Inl (Errorf ''could not unmarshal metadata.json content'' JsonError)
                    | Some meta \<Rightarrow>
                        if Sha256Hash L body \<noteq> ContentHash meta then Inl IntegrityError
                        else Inr body)))"

text \<open>\<^verbatim>\<open>Put\<close>; \<open>now\<close> is the value of \<^verbatim>\<open>time.Now().UTC().Unix()\<close>.\<close>

definition Put ::
  "golib \<Rightarrow> Storage \<Rightarrow> int \<Rightarrow> string \<Rightarrow> string \<Rightarrow> string \<Rightarrow> fsys \<Rightarrow> goerr option \<times> fsys" where
  "Put L s now bucket key body st =
     (if \<not> existPath s bucket st then (Some BucketNotFound, st)
      else
        let hash = Sha256Hash L key;
            dir = root s @ ''/'' @ bucket @ ''/'' @ hash
        in case MkdirAll st dir of
             (Some e, st1) \<Rightarrow> (Some (PathError e), st1)
           | (None, st1) \<Rightarrow>
               (case json_Marshal L \<lparr>ContentHash = Sha256Hash L body, ContentSize = int (length body),
                                      OriginalKey = key, LastModified = now\<rparr> of
                  None \<Rightarrow> (Some (Errorf ''could not marshal metadata struct'' JsonError), st1)
                | Some meta \<Rightarrow>
                    (case WriteFile st1 (dir @ ''/metadata.json'') meta of
                       (Some err, st2) \<Rightarrow> (Some (Errorf ''could not write metadata.json'' err), st2)
                     | (None, st2) \<Rightarrow> WriteFile st2 (dir @ ''/body'') body)))"

definition Delete :: "golib \<Rightarrow> Storage \<Rightarrow> string \<Rightarrow> string \<Rightarrow> fsys \<Rightarrow> goerr option \<times> fsys" where
  "Delete L s bucket key st =
     (if \<not> existPath s bucket st then (Some BucketNotFound, st)
      else
        let hash = Sha256Hash L key in
        if \<not> existPath s (bucket @ ''/'' @ hash) st then (Some ObjectNotFound, st)
        else osError (RemoveAll st (root s @ ''/'' @ bucket @ ''/'' @ hash)))"

section \<open>Paths below a directory\<close>

text \<open>
  The definitions of this section are not functions of the program. They state what the
  program's paths are made of, so that the theorems about the store can be stated: a
  plain name is one path component that is not a dot name; \<open>child p n\<close> is the path the
  code writes \<^verbatim>\<open>p + "/" + n\<close>; \<open>dirAt\<close> is the location of the directory a path names;
  \<open>dirsKept\<close> relates a file system to a later one in which every directory is still a
  directory.
\<close>

definition plainName :: "string \<Rightarrow> bool" where
  "plainName n = (n \<noteq> [] \<and> CHR ''/'' \<notin> set n \<and> n \<noteq> ''.'' \<and> n \<noteq> ''..'')"

definition child :: "string \<Rightarrow> string \<Rightarrow> string" where
  "child p n = p @ ''/'' @ n"

definition dirAt :: "fsys \<Rightarrow> string \<Rightarrow> errno + string list" where
  "dirAt st p =
     (case resolve st p of
        Inl e \<Rightarrow> Inl e
      | Inr q \<Rightarrow>
          (case nodes st q of
             None \<Rightarrow> Inl ENOENT
           | Some (File d) \<Rightarrow> Inl ENOTDIR
           | Some Dir \<Rightarrow> Inr q))"

definition dirsKept :: "fsys \<Rightarrow> fsys \<Rightarrow> bool" where
  "dirsKept st st' = (cwd st' = cwd st \<and> (\<forall>y. nodes st y = Some Dir \<longrightarrow> nodes st' y = Some Dir))"

text \<open>
  What \<^verbatim>\<open>Get\<close> returns and what \<^verbatim>\<open>Put\<close> does, read off the nodes at the location \<open>ob\<close>
  of the object's directory and below it. The lemmas \<open>Get_nf\<close> and \<open>Put_nf\<close> below prove
  that \<^verbatim>\<open>Get\<close> and \<^verbatim>\<open>Put\<close> are these functions at the location the bucket's path
  resolves to.
\<close>

definition getObj :: "golib \<Rightarrow> (string list \<Rightarrow> node option) \<Rightarrow> string list \<Rightarrow> goerr + string" where
  "getObj L fs ob =
     (case fs ob of
        None \<Rightarrow> Inl ObjectNotFound
      | Some (File d) \<Rightarrow> Inl (Errorf ''could not read data file'' (PathError ENOTDIR))
      | Some Dir \<Rightarrow>
          (case fs (ob @ [''body'']) of
             None \<Rightarrow> Inl (Errorf ''could not read data file'' (PathError ENOENT))
           | Some Dir \<Rightarrow> Inl (Errorf ''could not read data file'' (PathError EISDIR))
           | Some (File body) \<Rightarrow>
               (case fs (ob @ [''metadata.json'']) of
                  None \<Rightarrow> Inl (Errorf ''could not read metadata file'' (PathError ENOENT))
                | Some Dir \<Rightarrow> Inl (Errorf ''could not read metadata file'' (PathError EISDIR))
                | Some (File b) \<Rightarrow>
                    (case json_Unmarshal L b of
                       None \<Rightarrow> Inl (Errorf ''could not unmarshal metadata.json content'' JsonError)
                     | Some meta \<Rightarrow>
                         if Sha256Hash L body \<noteq> ContentHash meta then Inl IntegrityError
                         else Inr body))))"

definition putObj ::
  "golib \<Rightarrow> int \<Rightarrow> string \<Rightarrow> string \<Rightarrow> fsys \<Rightarrow> string list \<Rightarrow> goerr option \<times> fsys" where
  "putObj L now key body st ob =
     (case nodes st ob of
        Some (File d) \<Rightarrow> (Some (PathError ENOTDIR), st)
      | _ \<Rightarrow>
          (case json_Marshal L \<lparr>ContentHash = Sha256Hash L body, ContentSize = int (length body),
                                 OriginalKey = key, LastModified = now\<rparr> of
             None \<Rightarrow> (Some (Errorf ''could not marshal metadata struct'' JsonError),
                       st\<lparr>nodes := (nodes st)(ob \<mapsto> Dir)\<rparr>)
           | Some meta \<Rightarrow>
               (case nodes st (ob @ [''metadata.json'']) of
                  Some Dir \<Rightarrow> (Some (Errorf ''could not write metadata.json'' (PathError EISDIR)),
                               st\<lparr>nodes := (nodes st)(ob \<mapsto> Dir)\<rparr>)
                | _ \<Rightarrow>
                    (case nodes st (ob @ [''body'']) of
                       Some Dir \<Rightarrow>
                         (Some (PathError EISDIR),
                          st\<lparr>nodes := (nodes st)(ob \<mapsto> Dir, ob @ [''metadata.json''] \<mapsto> File meta)\<rparr>)
                     | _ \<Rightarrow>
                         (None,
                          st\<lparr>nodes := (nodes st)(ob \<mapsto> Dir, ob @ [''metadata.json''] \<mapsto> File meta,
                                                  ob @ [''body''] \<mapsto> File body)\<rparr>)))))"

section \<open>Sample values\<close>

text \<open>
  A concrete instance of the library parameters, on which the model is run where a
  statement needs a value. The instance is a stand-in for Go's library: its digest is a
  32-byte checksum that reads every byte of its input (each byte of the data is combined
  by exclusive or into one of the 32 bytes; it is not SHA-256), its JSON codec writes the
  content hash alone, and its Unicode tables are empty above Latin-1. The theorems below
  hold for every instance, unless they name this one.
\<close>

definition xorInto :: "string \<Rightarrow> char \<Rightarrow> string" where
  "xorInto acc c = tl acc @ [xorByte (hd acc) c]"

definition checksum32 :: "string \<Rightarrow> string" where
  "checksum32 d = foldl xorInto (replicate 32 (CHR 0x00)) d"

definition checksumLib :: golib where
  "checksumLib =
     \<lparr>sha256_Sum256 = checksum32,
      json_Marshal = (\<lambda>m. Some (ContentHash m)),
      json_Unmarshal =
        (\<lambda>b. Some \<lparr>ContentHash = b, ContentSize = 0, OriginalKey = [], LastModified = 0\<rparr>),
      unicode_Lower = (\<lambda>r. False),
      unicode_Digit = (\<lambda>r. False)\<rparr>"

text \<open>
  A signed request, for every instance of the library: the client holds the keys
  \<^verbatim>\<open>ak\<close> and \<^verbatim>\<open>sk\<close>, signs the header \<^verbatim>\<open>host\<close> alone with the credential scope \<^verbatim>\<open>x\<close>,
  and sends the signature it computes, with the library at hand, in the
  \<^verbatim>\<open>authorization\<close> header. The header \<^verbatim>\<open>x-amz-date\<close> is sent and not signed.
\<close>

definition sampleAuth :: Auth where
  "sampleAuth = \<lparr>accessKey = ''ak'', secretKey = ''sk''\<rparr>"

definition sampleSignature :: "golib \<Rightarrow> string" where
  "sampleSignature L =
     computedSignature L sampleAuth ''GET'' ''/b/k''
       [''host'' \<mapsto> ''localhost'', ''x-amz-date'' \<mapsto> ''20260101T000000Z''] ''e3''
       \<lparr>credential = ''x'', signedHeaders = ''host'', signature = []\<rparr>"

definition sampleAuthorization :: "golib \<Rightarrow> string" where
  "sampleAuthorization L =
     ''AWS4-HMAC-SHA256 Credential=ak/x, SignedHeaders=host, Signature='' @ sampleSignature L"

definition sampleHeaders :: "golib \<Rightarrow> (string \<rightharpoonup> string)" where
  "sampleHeaders L =
     [''host'' \<mapsto> ''localhost'', ''x-amz-date'' \<mapsto> ''20260101T000000Z'',
      ''authorization'' \<mapsto> sampleAuthorization L]"

text \<open>
  A store and a file system on which the model is run: the process works in \<^verbatim>\<open>/srv\<close>,
  the store's root is \<^verbatim>\<open>./data\<close>, an empty directory.
\<close>

definition sampleStorage :: Storage where
  "sampleStorage = \<lparr>root = ''./data''\<rparr>"

definition sampleFs :: fsys where
  "sampleFs =
     \<lparr>nodes = [[] \<mapsto> Dir, [''srv''] \<mapsto> Dir, [''srv'', ''data''] \<mapsto> Dir], cwd = [''srv'']\<rparr>"

text \<open>
  The checksum instance with any other digest function in the place of the checksum,
  SHA-256 for one: the statements made for every \<open>d\<close> below do not depend on the digest.
\<close>

definition withDigest :: "(string \<Rightarrow> string) \<Rightarrow> golib" where
  "withDigest d = checksumLib\<lparr>sha256_Sum256 := d\<rparr>"

text \<open>
  The file system after the bucket \<^verbatim>\<open>my-bucket\<close> is made, and after the body \<^verbatim>\<open>hello\<close>
  is then put under the key \<^verbatim>\<open>k\<close>; the latter after the body file is overwritten out of
  band; and after a second bucket is made and filled.
\<close>

definition bucketFs :: "golib \<Rightarrow> fsys" where
  "bucketFs L = snd (NewBucket L sampleStorage ''my-bucket'' sampleFs)"

definition storedFs :: "golib \<Rightarrow> fsys" where
  "storedFs L = snd (Put L sampleStorage 1700000000 ''my-bucket'' ''k'' ''hello'' (bucketFs L))"

definition corruptedFs :: fsys where
  "corruptedFs =
     snd (WriteFile (storedFs checksumLib)
            (''./data/my-bucket/'' @ Sha256Hash checksumLib ''k'' @ ''/body'') ''jello'')"

definition twoBucketsFs :: fsys where
  "twoBucketsFs =
     snd (Put checksumLib sampleStorage 1700000060 ''other-bucket'' ''k'' ''theirs''
            (snd (NewBucket checksumLib sampleStorage ''other-bucket'' (storedFs checksumLib))))"

text \<open>
  The bucket string \<^verbatim>\<open>my-bucket/<hash of k>/..\<close>, which names the directory of
  \<^verbatim>\<open>my-bucket\<close> as long as the object of the key \<^verbatim>\<open>k\<close> exists.
\<close>

definition dotdotBucket :: "golib \<Rightarrow> string" where
  "dotdotBucket L = child (child ''my-bucket'' (Sha256Hash L ''k'')) ''..''"

section \<open>Properties of the request authenticator\<close>

lemma taxonomy_distinct:
  "MissingAuthHeader \<noteq> UnsupportedAlgorithm" "MissingAuthHeader \<noteq> InvalidAccessKey"
  "MissingAuthHeader \<noteq> InvalidSignature" "UnsupportedAlgorithm \<noteq> InvalidAccessKey"
  "UnsupportedAlgorithm \<noteq> InvalidSignature" "InvalidAccessKey \<noteq> InvalidSignature"
  by (simp_all add: MissingAuthHeader_def UnsupportedAlgorithm_def InvalidAccessKey_def
      InvalidSignature_def)

lemma Validate_cascade:
  "Validate L a method uri headers body =
     (if mapGet headers ''authorization'' = [] then Some MissingAuthHeader
      else if \<not> prefix ''AWS4-HMAC-SHA256 '' (mapGet headers ''authorization'')
        then Some UnsupportedAlgorithm
      else if \<not> prefix (accessKey a @ ''/'')
                 (mapGet (headerFields (mapGet headers ''authorization'')) ''Credential'')
        then Some InvalidAccessKey
      else if computedSignature L a method uri headers body
                (parsedHeader a (mapGet headers ''authorization''))
              \<noteq> mapGet (headerFields (mapGet headers ''authorization'')) ''Signature''
        then Some InvalidSignature
      else None)"
  by (simp add: Validate_def parseAuthHeader_def HasPrefix_def signAlgorithm_def Let_def
      parsedHeader_def MissingAuthHeader_def UnsupportedAlgorithm_def InvalidAccessKey_def
      InvalidSignature_def)

text \<open>
  Claim C2. \<^verbatim>\<open>Validate\<close> returns the missing-header error exactly when the header map has
  no \<^verbatim>\<open>authorization\<close> entry or an empty one; otherwise the unsupported-algorithm error
  exactly when the header does not begin with \<^verbatim>\<open>"AWS4-HMAC-SHA256 "\<close>; otherwise the
  invalid-access-key error exactly when the parsed \<^verbatim>\<open>Credential\<close> field does not begin
  with the configured access key and a slash; otherwise the invalid-signature error
  exactly when the recomputed hexadecimal signature differs from the parsed
  \<^verbatim>\<open>Signature\<close> field; and it returns \<^verbatim>\<open>nil\<close> exactly when the two are equal.
\<close>

theorem Validate_outcomes:
  fixes L a meth uri headers body
  defines "hdr \<equiv> mapGet headers ''authorization''"
  defines "supplied \<equiv> mapGet (headerFields hdr) ''Signature''"
  defines "computed \<equiv> computedSignature L a meth uri headers body (parsedHeader a hdr)"
  defines "algOk \<equiv> prefix ''AWS4-HMAC-SHA256 '' hdr"
  defines "keyOk \<equiv> prefix (accessKey a @ ''/'') (mapGet (headerFields hdr) ''Credential'')"
  shows "(Validate L a meth uri headers body = Some MissingAuthHeader) =
           (headers ''authorization'' = None \<or> headers ''authorization'' = Some [])
       \<and> (Validate L a meth uri headers body = Some UnsupportedAlgorithm) =
           (hdr \<noteq> [] \<and> \<not> algOk)
       \<and> (Validate L a meth uri headers body = Some InvalidAccessKey) =
           (hdr \<noteq> [] \<and> algOk \<and> \<not> keyOk)
       \<and> (Validate L a meth uri headers body = Some InvalidSignature) =
           (hdr \<noteq> [] \<and> algOk \<and> keyOk \<and> computed \<noteq> supplied)
       \<and> (Validate L a meth uri headers body = None) =
           (hdr \<noteq> [] \<and> algOk \<and> keyOk \<and> computed = supplied)"
proof -
  have e: "(hdr = []) = (headers ''authorization'' = None \<or> headers ''authorization'' = Some [])"
    by (auto simp: hdr_def mapGet_def split: option.splits)
  show ?thesis
    unfolding e [symmetric]
    using taxonomy_distinct
    by (simp add: Validate_cascade hdr_def [symmetric] algOk_def [symmetric]
        keyOk_def [symmetric] computed_def [symmetric] supplied_def [symmetric])
qed

lemma Split_nonempty [simp]: "Split s sep \<noteq> []"
  by (induction s) (auto split: list.splits)

lemma Split_first: "Split s sep ! 0 = takeWhile (\<lambda>c. c \<noteq> sep) s"
proof (induction s)
  case Nil
  show ?case by simp
next
  case (Cons c cs)
  then show ?case
    using Split_nonempty [of cs sep] by (cases "Split cs sep") auto
qed


lemma canonicalUri_examples:
  "canonicalUri [] = ''/''"
  "canonicalUri ''/b'' = ''/b''"
  "canonicalUri ''/b/k?x=1'' = ''/b/k''"
  "canonicalUri ''/a%20b/../c?x'' = ''/a%20b/../c''"
  by (simp_all add: canonicalUri_def Split_first)


text \<open>
  Claim C9, at the URI \<^verbatim>\<open>"/o?b=1?a=2"\<close>: the text after the first question mark is
  \<^verbatim>\<open>"b=1?a=2"\<close>, one token, but \<^verbatim>\<open>canonicalQuery\<close> takes only the text up to the second
  question mark.
\<close>

theorem canonicalQuery_second_question_mark: "canonicalQuery ''/o?b=1?a=2'' = ''b=1''"
  by (simp add: canonicalQuery_def)

lemma mapGet_upd_other: "k' \<noteq> k \<Longrightarrow> mapGet (h(k := v)) k' = mapGet h k'"
  by (simp add: mapGet_def)

lemma foldl_headers_unsigned:
  "k \<notin> set names \<Longrightarrow>
   foldl (\<lambda>result key. result @ key @ '':'' @ TrimSpace (mapGet (h(k := v)) key) @ newline) acc names =
   foldl (\<lambda>result key. result @ key @ '':'' @ TrimSpace (mapGet h key) @ newline) acc names"
  by (induction names arbitrary: acc) (auto simp: mapGet_upd_other)

lemma canonicalHeaders_unsigned:
  "k \<notin> set names \<Longrightarrow> canonicalHeaders (h(k := v)) names = canonicalHeaders h names"
  unfolding canonicalHeaders_def by (rule foldl_headers_unsigned)

lemma canonicalRequest_unsigned:
  "k \<notin> set (Split sh (CHR '';'')) \<Longrightarrow>
   canonicalRequest meth uri (h(k := v)) sh body = canonicalRequest meth uri h sh body"
  by (simp add: canonicalRequest_def canonicalHeaders_unsigned)

lemma computedSignature_unsigned:
  "k \<notin> set (Split (signedHeaders ah) (CHR '';'')) \<Longrightarrow> k \<noteq> ''x-amz-date'' \<Longrightarrow>
   computedSignature L a meth uri (h(k := v)) body ah = computedSignature L a meth uri h body ah"
  by (simp add: computedSignature_def canonicalRequest_unsigned mapGet_upd_other)

text \<open>
  Determinism. \<^verbatim>\<open>Validate\<close> and the functions it calls read no clock, iterate over no map
  and keep no state, so in the model each result is a function of the keys, the method,
  the URI, the header map and the body hash: two runs on the same inputs agree. The
  header map is read at the names \<^verbatim>\<open>authorization\<close> and \<^verbatim>\<open>x-amz-date\<close> and at the
  names listed in \<^verbatim>\<open>SignedHeaders\<close>, and nowhere else: two header maps that agree there
  give the same canonical request, the same signature and the same result.
\<close>

lemma foldl_headers_agree:
  "\<forall>k\<in>set names. mapGet h' k = mapGet h k \<Longrightarrow>
   foldl (\<lambda>result key. result @ key @ '':'' @ TrimSpace (mapGet h' key) @ newline) acc names =
   foldl (\<lambda>result key. result @ key @ '':'' @ TrimSpace (mapGet h key) @ newline) acc names"
  by (induction names arbitrary: acc) auto

lemma Validate_reads_headers:
  assumes "mapGet h' ''authorization'' = mapGet h ''authorization''"
    and "mapGet h' ''x-amz-date'' = mapGet h ''x-amz-date''"
    and "\<forall>k\<in>set (Split (signedHeaders (parsedHeader a (mapGet h ''authorization''))) (CHR '';'')).
           mapGet h' k = mapGet h k"
  shows "canonicalRequest meth uri h'
           (signedHeaders (parsedHeader a (mapGet h ''authorization''))) body =
         canonicalRequest meth uri h
           (signedHeaders (parsedHeader a (mapGet h ''authorization''))) body"
    and "computedSignature L a meth uri h' body (parsedHeader a (mapGet h ''authorization'')) =
         computedSignature L a meth uri h body (parsedHeader a (mapGet h ''authorization''))"
    and "Validate L a meth uri h' body = Validate L a meth uri h body"
proof -
  show r: "canonicalRequest meth uri h'
           (signedHeaders (parsedHeader a (mapGet h ''authorization''))) body =
         canonicalRequest meth uri h
           (signedHeaders (parsedHeader a (mapGet h ''authorization''))) body"
    unfolding canonicalRequest_def canonicalHeaders_def
    using foldl_headers_agree [OF assms(3)] by simp
  show s: "computedSignature L a meth uri h' body (parsedHeader a (mapGet h ''authorization'')) =
         computedSignature L a meth uri h body (parsedHeader a (mapGet h ''authorization''))"
    by (simp add: computedSignature_def r assms(2))
  show "Validate L a meth uri h' body = Validate L a meth uri h body"
    by (simp add: Validate_cascade assms(1) s)
qed

text \<open>
  Claim C3, as amended. For a header name that is not listed in the parsed
  \<^verbatim>\<open>SignedHeaders\<close> field, and that is neither \<^verbatim>\<open>authorization\<close> nor \<^verbatim>\<open>x-amz-date\<close>
  (the two headers \<^verbatim>\<open>Validate\<close> reads by name), setting, changing or removing its
  value changes neither the canonical request, nor the computed signature, nor the
  result of \<^verbatim>\<open>Validate\<close>; the runs compared are runs of the same function on the same
  keys, method, URI and body hash.
\<close>

theorem unsigned_header_irrelevant:
  assumes "k \<notin> set (Split (signedHeaders (parsedHeader a (mapGet headers ''authorization''))) (CHR '';''))"
    and "k \<noteq> ''authorization''" and "k \<noteq> ''x-amz-date''"
  shows "canonicalRequest meth uri (headers(k := v))
           (signedHeaders (parsedHeader a (mapGet headers ''authorization''))) body =
         canonicalRequest meth uri headers
           (signedHeaders (parsedHeader a (mapGet headers ''authorization''))) body
       \<and> computedSignature L a meth uri (headers(k := v)) body
           (parsedHeader a (mapGet headers ''authorization'')) =
         computedSignature L a meth uri headers body
           (parsedHeader a (mapGet headers ''authorization''))
       \<and> Validate L a meth uri (headers(k := v)) body = Validate L a meth uri headers body"
proof -
  from assms(2) have same: "mapGet (headers(k := v)) ''authorization'' = mapGet headers ''authorization''"
    by (simp add: mapGet_upd_other)
  show ?thesis
    using assms(1,3)
    by (simp add: Validate_cascade same canonicalRequest_unsigned computedSignature_unsigned)
qed

lemma hexDigit_in: "hexDigit n \<in> set ''0123456789abcdef''"
  unfolding hexDigit_def by (rule nth_mem) simp

lemma set_EncodeToString: "set (EncodeToString bs) \<subseteq> set ''0123456789abcdef''"
  unfolding EncodeToString_def using hexDigit_in by (induction bs) auto

lemma Split_append_plain:
  "sep \<notin> set y \<Longrightarrow> Split (x @ y) sep = butlast (Split x sep) @ [last (Split x sep) @ y]"
proof (induction x)
  case Nil
  then show ?case by (induction y) auto
next
  case (Cons a x)
  then show ?case
    using Split_nonempty [of x sep] by (cases "Split x sep") (auto split: list.splits)
qed

lemma trimLeftWith_none: "leadingSpace encs s = 0 \<Longrightarrow> trimLeftWith encs s = s"
  by (subst trimLeftWith.simps) simp

lemma trimLeftWith_some:
  "leadingSpace encs s = n \<Longrightarrow> n \<noteq> 0 \<Longrightarrow> trimLeftWith encs s = trimLeftWith encs (drop n s)"
  by (subst trimLeftWith.simps) simp

lemma leadingSpace_letter:
  "leadingSpace spaceEncodings (CHR ''S'' # s) = 0"
  "leadingSpace spaceEncodings (CHR '' '' # s) = 1"
  "leadingSpace (map rev spaceEncodings) (CHR ''='' # s) = 0"
  by (simp_all add: leadingSpace_def spaceEncodings_def)

lemma leadingSpace_hex_each:
  "leadingSpace (map rev spaceEncodings) (CHR ''0'' # s) = 0"
  "leadingSpace (map rev spaceEncodings) (CHR ''1'' # s) = 0"
  "leadingSpace (map rev spaceEncodings) (CHR ''2'' # s) = 0"
  "leadingSpace (map rev spaceEncodings) (CHR ''3'' # s) = 0"
  "leadingSpace (map rev spaceEncodings) (CHR ''4'' # s) = 0"
  "leadingSpace (map rev spaceEncodings) (CHR ''5'' # s) = 0"
  "leadingSpace (map rev spaceEncodings) (CHR ''6'' # s) = 0"
  "leadingSpace (map rev spaceEncodings) (CHR ''7'' # s) = 0"
  "leadingSpace (map rev spaceEncodings) (CHR ''8'' # s) = 0"
  "leadingSpace (map rev spaceEncodings) (CHR ''9'' # s) = 0"
  "leadingSpace (map rev spaceEncodings) (CHR ''a'' # s) = 0"
  "leadingSpace (map rev spaceEncodings) (CHR ''b'' # s) = 0"
  "leadingSpace (map rev spaceEncodings) (CHR ''c'' # s) = 0"
  "leadingSpace (map rev spaceEncodings) (CHR ''d'' # s) = 0"
  "leadingSpace (map rev spaceEncodings) (CHR ''e'' # s) = 0"
  "leadingSpace (map rev spaceEncodings) (CHR ''f'' # s) = 0"
  by (simp_all add: leadingSpace_def spaceEncodings_def)

lemma leadingSpace_hex:
  "c \<in> set ''0123456789abcdef'' \<Longrightarrow> leadingSpace (map rev spaceEncodings) (c # s) = 0"
  using leadingSpace_hex_each [of s] by auto

text \<open>\<^verbatim>\<open>TrimSpace\<close> on a field that ends in hexadecimal digits removes the leading space only.\<close>

lemma TrimSpace_hex_end:
  assumes "set sig \<subseteq> set ''0123456789abcdef''"
  shows "TrimSpace (CHR '' '' # CHR ''S'' # pre @ CHR ''='' # sig) = CHR ''S'' # pre @ CHR ''='' # sig"
proof -
  have left: "trimLeftWith spaceEncodings (CHR '' '' # CHR ''S'' # pre @ CHR ''='' # sig) =
              CHR ''S'' # pre @ CHR ''='' # sig"
    using trimLeftWith_some [OF leadingSpace_letter(2)] trimLeftWith_none [OF leadingSpace_letter(1)]
    by simp
  have right: "trimLeftWith (map rev spaceEncodings) (rev (CHR ''S'' # pre @ CHR ''='' # sig)) =
               rev (CHR ''S'' # pre @ CHR ''='' # sig)"
  proof (cases sig rule: rev_cases)
    case Nil
    then show ?thesis by (simp add: trimLeftWith_none leadingSpace_letter(3))
  next
    case (snoc m c)
    with assms have "c \<in> set ''0123456789abcdef''" by auto
    then have "leadingSpace (map rev spaceEncodings) (c # rev m @ CHR ''='' # rev pre @ ''S'') = 0"
      by (rule leadingSpace_hex)
    then show ?thesis using snoc by (simp add: trimLeftWith_none)
  qed
  show ?thesis unfolding TrimSpace_def left right by simp
qed

lemma TrimSpace_fields:
  "TrimSpace ''Credential=ak/x'' = ''Credential=ak/x''"
  "TrimSpace '' SignedHeaders=host'' = ''SignedHeaders=host''"
  by code_simp+

text \<open>What \<^verbatim>\<open>parseAuthHeader\<close> reads in the sample header, whatever the signature's digits.\<close>

lemma headerFields_signed:
  assumes "set sig \<subseteq> set ''0123456789abcdef''"
  shows "headerFields (''AWS4-HMAC-SHA256 Credential=ak/x, SignedHeaders=host, Signature='' @ sig) =
         [''Credential'' \<mapsto> ''ak/x'', ''SignedHeaders'' \<mapsto> ''host'', ''Signature'' \<mapsto> sig]"
proof -
  have c: "CHR '','' \<notin> set sig" using assms by auto
  have d: "drop (length (signAlgorithm @ '' ''))
             (''AWS4-HMAC-SHA256 Credential=ak/x, SignedHeaders=host, Signature='' @ sig) =
           ''Credential=ak/x, SignedHeaders=host, Signature='' @ sig"
    by (simp add: signAlgorithm_def)
  have s: "Split (''Credential=ak/x, SignedHeaders=host, Signature='' @ sig) (CHR '','') =
           [''Credential=ak/x'', '' SignedHeaders=host'', '' Signature='' @ sig]"
    using Split_append_plain [OF c, of "''Credential=ak/x, SignedHeaders=host, Signature=''"]
    by simp
  note t = TrimSpace_hex_end [OF assms, of "''ignature''", simplified]
  show ?thesis
    unfolding headerFields_def d s
    by (simp add: TrimSpace_fields t SplitN2_def Let_def)
qed

lemma sampleSignature_hex: "set (sampleSignature L) \<subseteq> set ''0123456789abcdef''"
  unfolding sampleSignature_def computedSignature_def Let_def by (rule set_EncodeToString)

lemma headerFields_sample:
  "headerFields (sampleAuthorization L) =
   [''Credential'' \<mapsto> ''ak/x'', ''SignedHeaders'' \<mapsto> ''host'', ''Signature'' \<mapsto> sampleSignature L]"
  unfolding sampleAuthorization_def by (rule headerFields_signed [OF sampleSignature_hex])

lemma sampleAuthorization_prefix:
  "sampleAuthorization L \<noteq> []" "prefix ''AWS4-HMAC-SHA256 '' (sampleAuthorization L)"
  by (simp_all add: sampleAuthorization_def)

lemma mapGet_sample:
  "mapGet (sampleHeaders L) ''authorization'' = sampleAuthorization L"
  "mapGet (sampleHeaders L) ''host'' = ''localhost''"
  "mapGet (sampleHeaders L) ''x-amz-date'' = ''20260101T000000Z''"
  by (simp_all add: sampleHeaders_def mapGet_def)

lemma parsedHeader_sample:
  "parsedHeader sampleAuth (sampleAuthorization L) =
   \<lparr>credential = ''x'', signedHeaders = ''host'', signature = sampleSignature L\<rparr>"
  by (simp add: parsedHeader_def headerFields_sample mapGet_def sampleAuth_def)

lemma computedSignature_sample:
  "computedSignature L sampleAuth ''GET'' ''/b/k'' (sampleHeaders L) ''e3''
     \<lparr>credential = ''x'', signedHeaders = ''host'', signature = sig\<rparr> = sampleSignature L"
  by (simp add: computedSignature_def sampleSignature_def canonicalRequest_def
      canonicalHeaders_def sampleHeaders_def mapGet_def)

text \<open>
  The sample request is accepted with every instance of the library, SHA-256 among
  them: the signature it carries is the one \<^verbatim>\<open>Validate\<close> computes.
\<close>

lemma Validate_sample_accepted:
  "Validate L sampleAuth ''GET'' ''/b/k'' (sampleHeaders L) ''e3'' = None"
  unfolding Validate_cascade mapGet_sample parsedHeader_sample computedSignature_sample
  by (simp add: sampleAuthorization_prefix headerFields_sample mapGet_def sampleAuth_def)

lemma sample_signed:
  "Split (signedHeaders (parsedHeader sampleAuth (mapGet (sampleHeaders L) ''authorization''))) (CHR '';'') =
   [''host'']"
  by (simp add: mapGet_sample parsedHeader_sample)

text \<open>
  The theorem at the sample request and the header \<^verbatim>\<open>x-trace\<close>, which is not signed:
  with every instance of the library the request is accepted without the header and with
  it.
\<close>

theorem unsigned_header_irrelevant_witness:
  "\<forall>L. ''x-trace'' \<notin> set (Split (signedHeaders (parsedHeader sampleAuth
                (mapGet (sampleHeaders L) ''authorization''))) (CHR '';''))
     \<and> ''x-trace'' \<noteq> ''authorization'' \<and> ''x-trace'' \<noteq> ''x-amz-date''
     \<and> Validate L sampleAuth ''GET'' ''/b/k'' ((sampleHeaders L)(''x-trace'' \<mapsto> ''1'')) ''e3'' =
         Validate L sampleAuth ''GET'' ''/b/k'' (sampleHeaders L) ''e3''
     \<and> Validate L sampleAuth ''GET'' ''/b/k'' (sampleHeaders L) ''e3'' = None"
proof
  fix L
  have h1: "''x-trace'' \<notin> set (Split (signedHeaders (parsedHeader sampleAuth
              (mapGet (sampleHeaders L) ''authorization''))) (CHR '';''))"
    by (simp add: sample_signed)
  have h2: "''x-trace'' \<noteq> ''authorization''" and h3: "''x-trace'' \<noteq> ''x-amz-date''" by simp_all
  from unsigned_header_irrelevant [OF h1 h2 h3, of "''GET''" "''/b/k''" "Some ''1''" "''e3''" L]
  have "Validate L sampleAuth ''GET'' ''/b/k'' ((sampleHeaders L)(''x-trace'' \<mapsto> ''1'')) ''e3'' =
        Validate L sampleAuth ''GET'' ''/b/k'' (sampleHeaders L) ''e3''"
    by simp
  with h1 h2 h3 Validate_sample_accepted [of L]
  show "''x-trace'' \<notin> set (Split (signedHeaders (parsedHeader sampleAuth
                (mapGet (sampleHeaders L) ''authorization''))) (CHR '';''))
     \<and> ''x-trace'' \<noteq> ''authorization'' \<and> ''x-trace'' \<noteq> ''x-amz-date''
     \<and> Validate L sampleAuth ''GET'' ''/b/k'' ((sampleHeaders L)(''x-trace'' \<mapsto> ''1'')) ''e3'' =
         Validate L sampleAuth ''GET'' ''/b/k'' (sampleHeaders L) ''e3''
     \<and> Validate L sampleAuth ''GET'' ''/b/k'' (sampleHeaders L) ''e3'' = None"
    by simp
qed

lemma Validate_sample_other_authorization:
  "Validate L sampleAuth ''GET'' ''/b/k'' ((sampleHeaders L)(''authorization'' \<mapsto> ''unsigned'')) ''e3'' =
     Some UnsupportedAlgorithm"
  by (simp add: Validate_cascade mapGet_def)

lemma Validate_sample_other_date:
  "Validate checksumLib sampleAuth ''GET'' ''/b/k''
     ((sampleHeaders checksumLib)(''x-amz-date'' \<mapsto> ''20260102T000000Z'')) ''e3'' =
   Some InvalidSignature"
  by code_simp

lemma strToSign_other_date:
  "strToSign L signAlgorithm ''20260101T000000Z'' cred req \<noteq>
   strToSign L signAlgorithm ''20260102T000000Z'' cred req"
  by (simp add: strToSign_def)

text \<open>
  Claim C3 as stated fails for the two headers that \<^verbatim>\<open>Validate\<close> reads by name, neither
  of which the sample request lists in \<^verbatim>\<open>SignedHeaders\<close>. With every instance of the
  library, the sample request is accepted, and with another value of its
  \<^verbatim>\<open>authorization\<close> header it is rejected. The value of \<^verbatim>\<open>x-amz-date\<close> enters the string
  to sign: with the checksum instance, whose digest reads all of its input, the request
  with another date is rejected, for its signature.
\<close>

theorem unsigned_header_counterexample:
  "(\<forall>L. ''authorization'' \<notin> set (Split (signedHeaders (parsedHeader sampleAuth
                 (mapGet (sampleHeaders L) ''authorization''))) (CHR '';''))
      \<and> Validate L sampleAuth ''GET'' ''/b/k'' (sampleHeaders L) ''e3'' = None
      \<and> Validate L sampleAuth ''GET'' ''/b/k''
          ((sampleHeaders L)(''authorization'' \<mapsto> ''unsigned'')) ''e3'' = Some UnsupportedAlgorithm)
   \<and> ''x-amz-date'' \<notin> set (Split (signedHeaders (parsedHeader sampleAuth
                 (mapGet (sampleHeaders checksumLib) ''authorization''))) (CHR '';''))
   \<and> Validate checksumLib sampleAuth ''GET'' ''/b/k'' (sampleHeaders checksumLib) ''e3'' = None
   \<and> Validate checksumLib sampleAuth ''GET'' ''/b/k''
       ((sampleHeaders checksumLib)(''x-amz-date'' \<mapsto> ''20260102T000000Z'')) ''e3'' =
     Some InvalidSignature"
  by (simp add: sample_signed Validate_sample_accepted Validate_sample_other_authorization
      Validate_sample_other_date)

section \<open>Properties of the bucket naming policy\<close>

lemma non_ascii_runes: "runes [CHR ''a'', CHR 0xC3, CHR 0xA4, CHR ''b''] = [0x61, 0xE4, 0x62]"
  by (simp add: inRange_def)

text \<open>
  Claim C7, at the name of the four bytes \<^verbatim>\<open>61 C3 A4 62\<close>, which is the letter a, the
  letter a with diaeresis (U+00E4, not an ASCII character) in UTF-8, and the letter b:
  \<^verbatim>\<open>validName\<close> accepts it, with every instance of the library, because
  \<^verbatim>\<open>unicode.IsLower\<close> holds of U+00E4.
\<close>

theorem validName_accepts_non_ascii:
  "validName L [CHR ''a'', CHR 0xC3, CHR 0xA4, CHR ''b''] = None"
  by (simp add: validName_def validRune_def IsLower_def IsDigit_def inRange_def ParseIP_def
      HasPrefix_def HasSuffix_def ipv4Field_def suffix_to_prefix)

text \<open>
  A name that \<^verbatim>\<open>validName\<close> accepts is one path component: it has no slash, is not a
  dot name, and has no \<^verbatim>\<open>..\<close> component. (A slash is a single byte in UTF-8 and never
  part of a longer encoding, so the loop over the code points sees it.)
\<close>

lemma Contains_component:
  "c \<in> set (Split s sep) \<Longrightarrow> sep \<notin> set c \<Longrightarrow> c \<noteq> [] \<Longrightarrow> Contains s c"
proof (induction s arbitrary: c)
  case Nil
  then show ?case by simp
next
  case (Cons a s)
  obtain t ts where sp: "Split s sep = t # ts" using Split_nonempty [of s sep] by (cases "Split s sep") auto
  show ?case
  proof (cases "a = sep")
    case True
    with Cons.prems sp have "c \<in> set (Split s sep)" by auto
    with Cons.IH Cons.prems show ?thesis by simp
  next
    case False
    with Cons.prems sp have "c = a # t \<or> c \<in> set ts" by auto
    then show ?thesis
    proof
      assume "c \<in> set ts"
      with sp have "c \<in> set (Split s sep)" by simp
      with Cons.IH Cons.prems show ?thesis by simp
    next
      assume c: "c = a # t"
      have "prefix t s" using sp
      proof (induction s arbitrary: t ts)
        case Nil
        then show ?case by simp
      next
        case (Cons b s)
        then show ?case
          using Split_nonempty [of s sep] by (cases "Split s sep") (auto split: if_splits)
      qed
      then show ?thesis by (simp add: c)
    qed
  qed
qed

lemma validName_no_dotdot:
  assumes "validName L name = None"
  shows "''..'' \<notin> set (Split name (CHR ''/''))"
proof
  assume "''..'' \<in> set (Split name (CHR ''/''))"
  then have "Contains name ''..''" by (rule Contains_component) simp_all
  with assms show False by (simp add: validName_def split: if_splits)
qed

lemma decodeRune_width:
  assumes "decodeRune (c0 # cs) = (r, w)"
  shows "1 \<le> w \<and> w - 1 \<le> length cs
       \<and> (\<forall>x \<in> set (take (w - 1) cs). (0x80::int) \<le> of_char x)
       \<and> (of_char c0 < (0x80::int) \<longrightarrow> r = of_char c0)"
  using assms
  by (auto simp: Let_def inRange_def split: if_splits list.splits)

lemma ascii_in_runes:
  "x \<in> set s \<Longrightarrow> of_char x < (0x80::int) \<Longrightarrow> of_char x \<in> set (runes s)"
proof (induction s rule: runes.induct)
  case 1
  then show ?case by simp
next
  case (2 c cs)
  obtain r w where d: "decodeRune (c # cs) = (r, w)" by (cases "decodeRune (c # cs)")
  note dw = decodeRune_width [OF d]
  have rs: "runes (c # cs) = r # runes (drop (w - 1) cs)" using d by simp
  show ?case
  proof (cases "x = c")
    case True
    with dw "2.prems" show ?thesis by (simp add: rs del: runes.simps)
  next
    case False
    with "2.prems" have "x \<in> set cs" by simp
    then have "x \<in> set (take (w - 1) cs) \<or> x \<in> set (drop (w - 1) cs)"
      using append_take_drop_id [of "w - 1" cs] by (metis Un_iff set_append)
    moreover have "x \<notin> set (take (w - 1) cs)" using dw "2.prems"(2) by fastforce
    ultimately have "x \<in> set (drop (w - 1) cs)" by simp
    from "2.IH" [OF d [symmetric] this "2.prems"(2)] show ?thesis by (simp add: rs del: runes.simps)
  qed
qed

section \<open>Properties of the file system\<close>

declare trimLeftWith.simps [simp del]
declare MkdirAll.simps [simp del]

text \<open>
  What the calls of package \<^verbatim>\<open>os\<close> do on a path \<open>child p n\<close> whose last component \<open>n\<close> is a
  plain name, from the directory that \<open>p\<close> names.
\<close>

lemma child_eq: "child p n = p @ CHR ''/'' # n"
  by (simp add: child_def)

lemma child_nonempty [simp]: "child p n \<noteq> []"
  by (simp add: child_eq)

lemma Split_append_sep: "Split (x @ c # y) c = Split x c @ Split y c"
proof (induction x)
  case Nil
  show ?case by (cases "Split y c") auto
next
  case (Cons a x)
  then show ?case by (cases "Split x c") (auto split: list.splits)
qed

lemma Split_plain: "c \<notin> set x \<Longrightarrow> Split x c = [x]"
  by (induction x) auto

lemma Split_child:
  "plainName n \<Longrightarrow> Split (child p n) (CHR ''/'') = Split p (CHR ''/'') @ [n]"
  by (simp add: child_eq Split_append_sep Split_plain plainName_def)

lemma walk_append:
  "walk fs cur (cs @ ds) = (case walk fs cur cs of Inl e \<Rightarrow> Inl e | Inr q \<Rightarrow> walk fs q ds)"
  by (induction cs arbitrary: cur) (auto split: option.splits node.splits)

lemma start_child: "p \<noteq> [] \<Longrightarrow> start st (child p n) = start st p"
  by (cases p) (auto simp: start_def HasPrefix_def child_eq)

lemma step_plain: "plainName n \<Longrightarrow> step cur n = cur @ [n]"
  by (auto simp: step_def plainName_def)

lemma isDots_plain: "plainName n \<Longrightarrow> \<not> isDots n"
  by (auto simp: isDots_def plainName_def)

lemma resolve_child:
  assumes "p \<noteq> []" "plainName n"
  shows "resolve st (child p n) =
         (case dirAt st p of Inl e \<Rightarrow> Inl e | Inr q \<Rightarrow> Inr (q @ [n]))"
  using assms
  by (auto simp: resolve_def dirAt_def Split_child walk_append start_child step_plain
      split: sum.splits option.splits node.splits)

lemma Stat_child:
  assumes "p \<noteq> []" "plainName n"
  shows "Stat st (child p n) =
         (case dirAt st p of
            Inl e \<Rightarrow> Inl e
          | Inr q \<Rightarrow> (case nodes st (q @ [n]) of None \<Rightarrow> Inl ENOENT | Some x \<Rightarrow> Inr x))"
  by (simp add: Stat_def resolve_child [OF assms] split: sum.splits)

lemma dirAt_child:
  assumes "p \<noteq> []" "plainName n"
  shows "dirAt st (child p n) =
         (case dirAt st p of
            Inl e \<Rightarrow> Inl e
          | Inr q \<Rightarrow>
              (case nodes st (q @ [n]) of
                 None \<Rightarrow> Inl ENOENT
               | Some (File d) \<Rightarrow> Inl ENOTDIR
               | Some Dir \<Rightarrow> Inr (q @ [n])))"
  by (simp add: dirAt_def [of st "child p n"] resolve_child [OF assms] split: sum.splits)

lemma parentDir_child:
  assumes "p \<noteq> []"
  shows "parentDir st (child p n) (Split p (CHR ''/'') @ [n]) = dirAt st p"
  using assms
  by (auto simp: parentDir_def dirAt_def resolve_def start_child
      split: sum.splits option.splits node.splits)

lemma components_child:
  assumes "plainName n"
  shows "components (child p n) = Split p (CHR ''/'') @ [n]"
  using assms by (simp add: components_def Split_child plainName_def)

lemma ReadFile_child:
  assumes "p \<noteq> []" "plainName n"
  shows "ReadFile st (child p n) =
         (case dirAt st p of
            Inl e \<Rightarrow> Inl (PathError e)
          | Inr q \<Rightarrow>
              (case nodes st (q @ [n]) of
                 None \<Rightarrow> Inl (PathError ENOENT)
               | Some Dir \<Rightarrow> Inl (PathError EISDIR)
               | Some (File d) \<Rightarrow> Inr d))"
  by (simp add: ReadFile_def Stat_child [OF assms] split: sum.splits option.splits node.splits)

lemma WriteFile_child:
  assumes "p \<noteq> []" "plainName n"
  shows "WriteFile st (child p n) bytes =
         (case dirAt st p of
            Inl e \<Rightarrow> (Some (PathError e), st)
          | Inr q \<Rightarrow>
              (case nodes st (q @ [n]) of
                 Some Dir \<Rightarrow> (Some (PathError EISDIR), st)
               | _ \<Rightarrow> (None, st\<lparr>nodes := (nodes st)(q @ [n] \<mapsto> File bytes)\<rparr>)))"
  using assms
  by (simp add: WriteFile_def Split_child parentDir_child isDots_plain
      split: sum.splits option.splits node.splits)

lemma Mkdir_child:
  assumes "p \<noteq> []" "plainName n"
  shows "Mkdir st (child p n) =
         (case dirAt st p of
            Inl e \<Rightarrow> (Some e, st)
          | Inr q \<Rightarrow>
              (case nodes st (q @ [n]) of
                 Some x \<Rightarrow> (Some EEXIST, st)
               | None \<Rightarrow> (None, st\<lparr>nodes := (nodes st)(q @ [n] \<mapsto> Dir)\<rparr>)))"
  using assms
  by (simp add: Mkdir_def components_child parentDir_child isDots_plain
      split: sum.splits option.splits node.splits)

lemma length_EncodeToString: "length (EncodeToString bs) = 2 * length bs"
  by (induction bs) (auto simp: EncodeToString_def)

lemma length_Sha256Hash: "length (Sha256Hash L d) = 64"
  by (simp add: Sha256Hash_def length_EncodeToString digestBytes_def)

lemma plain_Sha256Hash: "plainName (Sha256Hash L d)"
proof -
  have "CHR ''/'' \<notin> set (Sha256Hash L d)"
    using set_EncodeToString [of "digestBytes (sha256_Sum256 L d)"]
    by (auto simp: Sha256Hash_def)
  moreover have "Sha256Hash L d \<noteq> []" "Sha256Hash L d \<noteq> ''.''" "Sha256Hash L d \<noteq> ''..''"
    using length_Sha256Hash [of L d] by auto
  ultimately show ?thesis by (simp add: plainName_def)
qed

lemma plain_body: "plainName ''body''" and plain_meta: "plainName ''metadata.json''"
  by (simp_all add: plainName_def)

lemma Stat_dirAt:
  "Stat st p = Inr Dir \<Longrightarrow> \<exists>q. dirAt st p = Inr q"
  "Stat st p = Inr (File d) \<Longrightarrow> dirAt st p = Inl ENOTDIR"
  "Stat st p = Inl e \<Longrightarrow> dirAt st p = Inl e"
  by (auto simp: Stat_def dirAt_def split: sum.splits option.splits node.splits)

lemma dirAt_Stat: "dirAt st p = Inr q \<Longrightarrow> Stat st p = Inr Dir"
  by (auto simp: Stat_def dirAt_def split: sum.splits option.splits node.splits)

lemma dirAt_Dir: "dirAt st p = Inr q \<Longrightarrow> nodes st q = Some Dir"
  by (auto simp: dirAt_def split: sum.splits option.splits node.splits)

lemma mkdirParent_child: "plainName n \<Longrightarrow> mkdirParent (child p n) = p"
proof -
  assume pl: "plainName n"
  then obtain m c where n: "n = m @ [c]" and c: "c \<noteq> CHR ''/''" and m: "CHR ''/'' \<notin> set m"
    by (cases n rule: rev_cases) (auto simp: plainName_def)
  have "dropWhile (\<lambda>c. c \<noteq> CHR ''/'') (rev m @ CHR ''/'' # rev p) =
        dropWhile (\<lambda>c. c \<noteq> CHR ''/'') (CHR ''/'' # rev p)"
    using m by (intro dropWhile_append2) auto
  then have "dropWhile (\<lambda>c. c \<noteq> CHR ''/'') (rev m @ CHR ''/'' # rev p) = CHR ''/'' # rev p"
    by simp
  then show ?thesis
    using c by (simp add: mkdirParent_def child_eq n del: butlast_rev)
qed

lemma MkdirAll_child:
  assumes "p \<noteq> []" "plainName n" "Stat st p = Inr x"
  shows "MkdirAll st (child p n) =
         (case dirAt st p of
            Inl e \<Rightarrow> (Some ENOTDIR, st)
          | Inr q \<Rightarrow>
              (case nodes st (q @ [n]) of
                 Some Dir \<Rightarrow> (None, st)
               | Some (File d) \<Rightarrow> (Some ENOTDIR, st)
               | None \<Rightarrow> (None, st\<lparr>nodes := (nodes st)(q @ [n] \<mapsto> Dir)\<rparr>)))"
proof (cases x)
  case Dir
  with assms(3) obtain q where q: "dirAt st p = Inr q" using Stat_dirAt(1) by blast
  have par: "MkdirAll st p = (None, st)"
    using assms(3) Dir by (simp add: MkdirAll.simps [of st p])
  show ?thesis
    using assms(1,2) q par
    by (simp add: MkdirAll.simps [of st "child p n"] Stat_child mkdirParent_child mkdirLast_def
        Mkdir_child split: option.splits node.splits)
next
  case (File d)
  with assms(3) have q: "dirAt st p = Inl ENOTDIR" using Stat_dirAt(2) by blast
  have par: "MkdirAll st p = (Some ENOTDIR, st)"
    using assms(3) File by (simp add: MkdirAll.simps [of st p])
  show ?thesis
    using assms(1,2) q par
    by (simp add: MkdirAll.simps [of st "child p n"] Stat_child mkdirParent_child)
qed

lemma endsWithDot_child: "plainName n \<Longrightarrow> \<not> endsWithDot (child p n)"
proof -
  assume pl: "plainName n"
  then obtain m c where n: "n = m @ [c]" by (cases n rule: rev_cases) (auto simp: plainName_def)
  show ?thesis
  proof (cases m rule: rev_cases)
    case Nil
    with pl n have "c \<noteq> CHR ''.''" by (auto simp: plainName_def)
    then show ?thesis by (simp add: endsWithDot_def child_eq n Nil nth_append)
  next
    case (snoc m' d)
    with pl n have "d \<noteq> CHR ''/''" by (auto simp: plainName_def)
    then show ?thesis
      by (simp add: endsWithDot_def child_eq n snoc nth_append nth_Cons split: nat.splits)
  qed
qed

lemma RemoveAll_child:
  assumes "p \<noteq> []" "plainName n"
  shows "RemoveAll st (child p n) =
         (case dirAt st p of
            Inl ENOENT \<Rightarrow> (None, st)
          | Inl e \<Rightarrow> (Some e, st)
          | Inr q \<Rightarrow>
              (case nodes st (q @ [n]) of
                 None \<Rightarrow> (None, st)
               | Some x \<Rightarrow>
                   (None, st\<lparr>nodes := (\<lambda>y. if prefix (q @ [n]) y then None else nodes st y)\<rparr>)))"
  using assms
  by (simp add: RemoveAll_def endsWithDot_child components_child Split_child parentDir_child
      isDots_plain split: sum.splits option.splits errno.splits)

lemma walk_mono:
  "\<forall>y. fs y = Some Dir \<longrightarrow> fs' y = Some Dir \<Longrightarrow> walk fs cur cs = Inr q \<Longrightarrow> walk fs' cur cs = Inr q"
  by (induction cs arbitrary: cur) (auto split: option.splits node.splits)

lemma dirAt_Inr:
  "(dirAt st p = Inr q) =
   (p \<noteq> [] \<and> walk (nodes st) (start st p) (Split p (CHR ''/'')) = Inr q \<and> nodes st q = Some Dir)"
  by (auto simp: dirAt_def resolve_def split: sum.splits option.splits node.splits)

lemma dirAt_mono: "dirsKept st st' \<Longrightarrow> dirAt st p = Inr q \<Longrightarrow> dirAt st' p = Inr q"
proof -
  assume k: "dirsKept st st'" and d: "dirAt st p = Inr q"
  from k have s: "start st' p = start st p" by (simp add: dirsKept_def start_def)
  from k have m: "\<forall>y. nodes st y = Some Dir \<longrightarrow> nodes st' y = Some Dir" by (simp add: dirsKept_def)
  from d have "p \<noteq> []" "walk (nodes st) (start st p) (Split p (CHR ''/'')) = Inr q" "nodes st q = Some Dir"
    by (simp_all add: dirAt_Inr)
  with walk_mono [OF m] m s show ?thesis by (simp add: dirAt_Inr)
qed

lemma dirsKept_refl [simp]: "dirsKept st st"
  by (simp add: dirsKept_def)

lemma dirsKept_upd:
  "nodes st x \<noteq> Some Dir \<or> n = Dir \<Longrightarrow> dirsKept st (st\<lparr>nodes := (nodes st)(x \<mapsto> n)\<rparr>)"
  by (auto simp: dirsKept_def)

lemma dirAt_upd:
  "dirAt st p = Inr q \<Longrightarrow> nodes st x \<noteq> Some Dir \<or> n = Dir \<Longrightarrow>
   dirAt (st\<lparr>nodes := (nodes st)(x \<mapsto> n)\<rparr>) p = Inr q"
  by (rule dirAt_mono [OF dirsKept_upd])

lemma walk_prefix:
  "''..'' \<notin> set cs \<Longrightarrow> walk fs cur cs = Inr q \<Longrightarrow> prefix cur q"
proof (induction cs arbitrary: cur)
  case Nil
  then show ?case by simp
next
  case (Cons c cs)
  from Cons.prems have w: "walk fs (step cur c) cs = Inr q"
    by (auto split: option.splits node.splits)
  from Cons.prems have "prefix cur (step cur c)" by (auto simp: step_def)
  moreover from Cons.IH [OF _ w] Cons.prems have "prefix (step cur c) q" by simp
  ultimately show ?case by (rule prefix_order.trans)
qed

lemma walk_keep:
  "''..'' \<notin> set cs \<Longrightarrow> walk fs cur cs = Inr q \<Longrightarrow> (\<And>v. prefix v q \<Longrightarrow> fs' v = fs v) \<Longrightarrow>
   walk fs' cur cs = Inr q"
proof (induction cs arbitrary: cur)
  case Nil
  then show ?case by simp
next
  case (Cons c cs)
  from Cons.prems(2) have w: "walk fs (step cur c) cs = Inr q" and d: "fs cur = Some Dir"
    by (auto split: option.splits node.splits)
  from walk_prefix [OF Cons.prems(1,2)] have "fs' cur = fs cur" by (rule Cons.prems(3))
  moreover from Cons.IH [OF _ w Cons.prems(3)] Cons.prems(1) have "walk fs' (step cur c) cs = Inr q"
    by simp
  ultimately show ?case using d by simp
qed

lemma dirAt_keep:
  assumes "''..'' \<notin> set (Split p (CHR ''/''))" and "dirAt st p = Inr q"
    and "cwd st' = cwd st" and "\<And>v. prefix v q \<Longrightarrow> nodes st' v = nodes st v"
  shows "dirAt st' p = Inr q"
proof -
  from assms(2) have "p \<noteq> []" "walk (nodes st) (start st p) (Split p (CHR ''/'')) = Inr q"
    "nodes st q = Some Dir"
    by (simp_all add: dirAt_Inr)
  moreover have "start st' p = start st p" using assms(3) by (simp add: start_def)
  moreover have "nodes st' q = nodes st q" by (rule assms(4)) simp
  ultimately show ?thesis
    using walk_keep [OF assms(1), of "nodes st" "start st p" q "nodes st'"] assms(4)
    by (simp add: dirAt_Inr)
qed

lemma Split_child_any: "Split (child p b) (CHR ''/'') = Split p (CHR ''/'') @ Split b (CHR ''/'')"
  by (simp add: child_eq Split_append_sep)

lemma walk_dot: "cs \<noteq> [] \<Longrightarrow> walk fs cur (''.'' # cs) = walk fs cur cs"
  by (cases cs) (auto simp: step_def split: option.splits node.splits)

lemma Split_dot_slash: "Split (CHR ''.'' # CHR ''/'' # b) (CHR ''/'') = ''.'' # Split b (CHR ''/'')"
  using Split_nonempty [of b "CHR ''/''"] by (cases "Split b (CHR ''/'')") auto

lemma start_child_any: "start st (child p (CHR ''.'' # CHR ''/'' # b)) = start st (child p b)"
  by (cases p) (auto simp: start_def HasPrefix_def child_eq)

lemma resolve_dot: "resolve st (child p (CHR ''.'' # CHR ''/'' # b)) = resolve st (child p b)"
proof -
  have "walk (nodes st) c (Split p (CHR ''/'') @ ''.'' # Split b (CHR ''/'')) =
        walk (nodes st) c (Split p (CHR ''/'') @ Split b (CHR ''/''))" for c
    by (simp add: walk_append walk_dot del: walk.simps split: sum.splits)
  then show ?thesis
    unfolding resolve_def Split_child_any Split_dot_slash start_child_any by simp
qed

lemma Stat_dot: "Stat st (child p (CHR ''.'' # CHR ''/'' # b)) = Stat st (child p b)"
  by (simp add: Stat_def resolve_dot)

lemma dirAt_dot: "dirAt st (child p (CHR ''.'' # CHR ''/'' # b)) = dirAt st (child p b)"
  by (simp add: dirAt_def resolve_dot)

lemma Split_child_dotdot: "Split (child p ''..'') (CHR ''/'') = Split p (CHR ''/'') @ [''..'']"
  by (simp add: Split_child_any)

lemma resolve_dotdot:
  assumes "p \<noteq> []"
  shows "resolve st (child p ''..'') =
         (case dirAt st p of Inl e \<Rightarrow> Inl e | Inr q \<Rightarrow> Inr (butlast q))"
  using assms
  by (auto simp: resolve_def dirAt_def Split_child_dotdot walk_append start_child step_def
      split: sum.splits option.splits node.splits)

lemma child_assoc: "child p (child a b) = child (child p a) b"
  by (simp add: child_def)

lemma slash_code: "of_char (CHR ''/'') = (0x2F::int)"
  by simp

lemma validName_plain:
  assumes "validName L name = None"
  shows "plainName name"
proof -
  from assms have len: "3 \<le> length name" and all: "list_all (validRune L) (runes name)"
    by (simp_all add: validName_def split: if_splits)
  have "CHR ''/'' \<notin> set name"
  proof
    assume "CHR ''/'' \<in> set name"
    then have "of_char (CHR ''/'') \<in> set (runes name)" by (rule ascii_in_runes) simp
    with all have "validRune L 0x2F" by (simp add: list_all_iff)
    then show False by (simp add: validRune_def IsLower_def IsDigit_def)
  qed
  with len show ?thesis by (auto simp: plainName_def)
qed

lemma validName_errors:
  "validName L name = Some e \<Longrightarrow> \<exists>msg. e = DomainError msg StatusBadRequest"
  by (auto simp: validName_def split: if_splits list.splits)

lemma NewStorage_root: "NewStorage path st = Inr s \<Longrightarrow> root s = path \<and> path \<noteq> []"
  by (auto simp: NewStorage_def Stat_def resolve_def split: sum.splits errno.splits node.splits)

section \<open>Properties of the object store\<close>

text \<open>
  \<^verbatim>\<open>Get\<close>, \<^verbatim>\<open>Put\<close> and \<^verbatim>\<open>Delete\<close> in terms of the location that the bucket's path
  \<^verbatim>\<open>root + "/" + bucket\<close> resolves to, for every bucket string.
\<close>

lemma child_file:
  "x @ ''/body'' = child x ''body''" "x @ ''/metadata.json'' = child x ''metadata.json''"
  by (simp_all add: child_def)

lemma if_exists:
  "(if \<not> (case X of Inl e \<Rightarrow> False | Inr n \<Rightarrow> True) then A else B) =
   (case X of Inl e \<Rightarrow> A | Inr n \<Rightarrow> B)"
  by (cases X) simp_all

lemma Stat_of_dirAt:
  "Stat st p = (case resolve st p of Inl e \<Rightarrow> Inl e
                | Inr q \<Rightarrow> (case nodes st q of None \<Rightarrow> Inl ENOENT | Some n \<Rightarrow> Inr n))"
  by (simp add: Stat_def)

lemma Get_nf:
  "Get L s bucket key st =
     (case Stat st (child (root s) bucket) of
        Inl e \<Rightarrow> Inl BucketNotFound
      | Inr x \<Rightarrow>
          (case dirAt st (child (root s) bucket) of
             Inl e \<Rightarrow> Inl ObjectNotFound
           | Inr q \<Rightarrow> getObj L (nodes st) (q @ [Sha256Hash L key])))"
proof -
  define h where "h = Sha256Hash L key"
  define bd where "bd = child (root s) bucket"
  have ph: "plainName h" unfolding h_def by (rule plain_Sha256Hash)
  have ne: "bd \<noteq> []" "child bd h \<noteq> []" by (simp_all add: bd_def)
  have g: "Get L s bucket key st =
     (case Stat st bd of
        Inl e \<Rightarrow> Inl BucketNotFound
      | Inr x \<Rightarrow>
         (case Stat st (child bd h) of
            Inl e \<Rightarrow> Inl ObjectNotFound
          | Inr y \<Rightarrow>
             (case ReadFile st (child (child bd h) ''body'') of
                Inl err \<Rightarrow> Inl (Errorf ''could not read data file'' err)
              | Inr body \<Rightarrow>
                  (case ReadFile st (child (child bd h) ''metadata.json'') of
                     Inl err \<Rightarrow> Inl (Errorf ''could not read metadata file'' err)
                   | Inr b \<Rightarrow>
                       (case json_Unmarshal L b of
                          None \<Rightarrow> Inl (Errorf ''could not unmarshal metadata.json content'' JsonError)
                        | Some meta \<Rightarrow>
                            if Sha256Hash L body \<noteq> ContentHash meta then Inl IntegrityError
                            else Inr body)))))"
    by (simp add: Get_def existPath_def Let_def h_def bd_def child_def if_exists
        cong: sum.case_cong)
  show ?thesis
  proof (cases "Stat st bd")
    case (Inl e)
    then show ?thesis unfolding g bd_def [symmetric] by simp
  next
    case (Inr x)
    show ?thesis
    proof (cases "dirAt st bd")
      case (Inl e)
      then show ?thesis
        unfolding g bd_def [symmetric] h_def [symmetric]
        by (simp add: Inr Stat_child [OF ne(1) ph])
    next
      case q: (Inr q)
      show ?thesis
        unfolding g bd_def [symmetric] h_def [symmetric]
        by (simp add: Inr q Stat_child [OF ne(1) ph] ReadFile_child [OF ne(2)]
            dirAt_child [OF ne(1) ph] plain_body plain_meta getObj_def
            split: option.splits node.splits)
    qed
  qed
qed

lemma write_phase:
  assumes d: "dirAt st1 od = Inr ob" and ne: "od \<noteq> []"
  shows "(case WriteFile st1 (child od ''metadata.json'') meta of
            (Some err, st2) \<Rightarrow> (Some (Errorf ''could not write metadata.json'' err), st2)
          | (None, st2) \<Rightarrow> WriteFile st2 (child od ''body'') body) =
         (case nodes st1 (ob @ [''metadata.json'']) of
            Some Dir \<Rightarrow> (Some (Errorf ''could not write metadata.json'' (PathError EISDIR)), st1)
          | _ \<Rightarrow>
              (case nodes st1 (ob @ [''body'']) of
                 Some Dir \<Rightarrow>
                   (Some (PathError EISDIR),
                    st1\<lparr>nodes := (nodes st1)(ob @ [''metadata.json''] \<mapsto> File meta)\<rparr>)
               | _ \<Rightarrow>
                   (None,
                    st1\<lparr>nodes := (nodes st1)(ob @ [''metadata.json''] \<mapsto> File meta,
                                             ob @ [''body''] \<mapsto> File body)\<rparr>)))"
proof (cases "nodes st1 (ob @ [''metadata.json'']) = Some Dir")
  case True
  then show ?thesis by (simp add: WriteFile_child [OF ne plain_meta] d)
next
  case False
  let ?st2 = "st1\<lparr>nodes := (nodes st1)(ob @ [''metadata.json''] \<mapsto> File meta)\<rparr>"
  have w: "WriteFile st1 (child od ''metadata.json'') meta = (None, ?st2)"
    using False by (simp add: WriteFile_child [OF ne plain_meta] d split: option.splits node.splits)
  have d2: "dirAt ?st2 od = Inr ob"
    using d False by (intro dirAt_upd) auto
  show ?thesis
    using False
    by (simp add: w WriteFile_child [OF ne plain_body] d2 split: option.splits node.splits)
qed

lemma Put_nf:
  "Put L s now bucket key body st =
     (case Stat st (child (root s) bucket) of
        Inl e \<Rightarrow> (Some BucketNotFound, st)
      | Inr x \<Rightarrow>
          (case dirAt st (child (root s) bucket) of
             Inl e \<Rightarrow> (Some (PathError ENOTDIR), st)
           | Inr q \<Rightarrow> putObj L now key body st (q @ [Sha256Hash L key])))"
proof -
  define h where "h = Sha256Hash L key"
  define bd where "bd = child (root s) bucket"
  define m where "m = \<lparr>ContentHash = Sha256Hash L body, ContentSize = int (length body),
                          OriginalKey = key, LastModified = now\<rparr>"
  have ph: "plainName h" unfolding h_def by (rule plain_Sha256Hash)
  have ne: "bd \<noteq> []" "child bd h \<noteq> []" by (simp_all add: bd_def)
  have g: "Put L s now bucket key body st =
     (case Stat st bd of
        Inl e \<Rightarrow> (Some BucketNotFound, st)
      | Inr x \<Rightarrow>
         (case MkdirAll st (child bd h) of
            (Some e, st1) \<Rightarrow> (Some (PathError e), st1)
          | (None, st1) \<Rightarrow>
              (case json_Marshal L m of
                 None \<Rightarrow> (Some (Errorf ''could not marshal metadata struct'' JsonError), st1)
               | Some meta \<Rightarrow>
                   (case WriteFile st1 (child (child bd h) ''metadata.json'') meta of
                      (Some err, st2) \<Rightarrow> (Some (Errorf ''could not write metadata.json'' err), st2)
                    | (None, st2) \<Rightarrow> WriteFile st2 (child (child bd h) ''body'') body))))"
    by (simp add: Put_def existPath_def Let_def h_def bd_def m_def child_def if_exists
        cong: sum.case_cong prod.case_cong option.case_cong)
  show ?thesis
  proof (cases "Stat st bd")
    case (Inl e)
    then show ?thesis unfolding g bd_def [symmetric] by simp
  next
    case (Inr x)
    note mk = MkdirAll_child [OF ne(1) ph Inr]
    show ?thesis
    proof (cases "dirAt st bd")
      case (Inl e)
      then show ?thesis
        unfolding g bd_def [symmetric] h_def [symmetric]
        by (simp add: Inr mk)
    next
      case q: (Inr q)
      let ?ob = "q @ [h]"
      let ?st1 = "st\<lparr>nodes := (nodes st)(?ob \<mapsto> Dir)\<rparr>"
      show ?thesis
      proof (cases "\<exists>d. nodes st ?ob = Some (File d)")
        case True
        then show ?thesis
          unfolding g bd_def [symmetric] h_def [symmetric]
          by (auto simp: Inr q mk putObj_def)
      next
        case False
        have mk1: "MkdirAll st (child bd h) = (None, ?st1)"
        proof (cases "nodes st ?ob")
          case None
          then show ?thesis by (simp add: mk q)
        next
          case (Some n)
          with False have n: "n = Dir" by (cases n) auto
          have "(nodes st)(?ob \<mapsto> Dir) = nodes st" using Some n by (intro fun_upd_idem) simp
          then show ?thesis using Some n by (simp add: mk q)
        qed
        have d0: "dirAt ?st1 bd = Inr q" using q by (intro dirAt_upd) auto
        have d1: "dirAt ?st1 (child bd h) = Inr ?ob"
          by (simp add: dirAt_child [OF ne(1) ph] d0)
        have neq: "?ob @ [''metadata.json''] \<noteq> ?ob" "?ob @ [''body''] \<noteq> ?ob" by simp_all
        show ?thesis
          unfolding g bd_def [symmetric] h_def [symmetric]
          using False neq
          by (simp add: Inr q mk1 write_phase [OF d1 ne(2)] putObj_def m_def [symmetric]
              split: option.splits node.splits)
      qed
    qed
  qed
qed

lemma Delete_nf:
  "Delete L s bucket key st =
     (case Stat st (child (root s) bucket) of
        Inl e \<Rightarrow> (Some BucketNotFound, st)
      | Inr x \<Rightarrow>
          (case dirAt st (child (root s) bucket) of
             Inl e \<Rightarrow> (Some ObjectNotFound, st)
           | Inr q \<Rightarrow>
               (case nodes st (q @ [Sha256Hash L key]) of
                  None \<Rightarrow> (Some ObjectNotFound, st)
                | Some y \<Rightarrow>
                    (None, st\<lparr>nodes := (\<lambda>x. if prefix (q @ [Sha256Hash L key]) x then None
                                               else nodes st x)\<rparr>))))"
proof -
  define h where "h = Sha256Hash L key"
  define bd where "bd = child (root s) bucket"
  have ph: "plainName h" unfolding h_def by (rule plain_Sha256Hash)
  have ne: "bd \<noteq> []" "child bd h \<noteq> []" by (simp_all add: bd_def)
  have g: "Delete L s bucket key st =
     (case Stat st bd of
        Inl e \<Rightarrow> (Some BucketNotFound, st)
      | Inr x \<Rightarrow>
         (case Stat st (child bd h) of
            Inl e \<Rightarrow> (Some ObjectNotFound, st)
          | Inr y \<Rightarrow> osError (RemoveAll st (child bd h))))"
    by (simp add: Delete_def existPath_def Let_def h_def bd_def child_def if_exists
        cong: sum.case_cong)
  show ?thesis
  proof (cases "Stat st bd")
    case (Inl e)
    then show ?thesis unfolding g bd_def [symmetric] by simp
  next
    case (Inr x)
    show ?thesis
    proof (cases "dirAt st bd")
      case (Inl e)
      then show ?thesis
        unfolding g bd_def [symmetric] h_def [symmetric]
        by (simp add: Inr Stat_child [OF ne(1) ph])
    next
      case q: (Inr q)
      show ?thesis
        unfolding g bd_def [symmetric] h_def [symmetric]
        by (simp add: Inr q Stat_child [OF ne(1) ph] RemoveAll_child [OF ne(1) ph] osError_def
            split: option.splits)
    qed
  qed
qed

lemma putObj_success:
  assumes "fst (putObj L now key body st ob) = None"
  shows "\<exists>meta. json_Marshal L \<lparr>ContentHash = Sha256Hash L body, ContentSize = int (length body),
                                  OriginalKey = key, LastModified = now\<rparr> = Some meta
           \<and> snd (putObj L now key body st ob) =
               st\<lparr>nodes := (nodes st)(ob \<mapsto> Dir, ob @ [''metadata.json''] \<mapsto> File meta,
                                       ob @ [''body''] \<mapsto> File body)\<rparr>"
  using assms by (auto simp: putObj_def split: option.splits node.splits)

lemma putObj_frame:
  "cwd (snd (putObj L now key body st ob)) = cwd st"
  "dirsKept st (snd (putObj L now key body st ob))"
  "\<not> prefix ob x \<Longrightarrow> nodes (snd (putObj L now key body st ob)) x = nodes st x"
  by (auto simp: putObj_def dirsKept_def split: option.splits node.splits)

lemma getObj_cong:
  assumes "\<And>x. prefix ob x \<Longrightarrow> fs' x = fs x"
  shows "getObj L fs' ob = getObj L fs ob"
proof -
  have e: "fs' ob = fs ob" "fs' (ob @ [''body'']) = fs (ob @ [''body''])"
    "fs' (ob @ [''metadata.json'']) = fs (ob @ [''metadata.json''])"
    by (simp_all add: assms)
  show ?thesis unfolding getObj_def e by (rule refl)
qed

lemma Put_success:
  assumes ok: "fst (Put L s now bucket key body st) = None"
  shows "\<exists>q meta. dirAt st (child (root s) bucket) = Inr q
           \<and> json_Marshal L \<lparr>ContentHash = Sha256Hash L body, ContentSize = int (length body),
                               OriginalKey = key, LastModified = now\<rparr> = Some meta
           \<and> snd (Put L s now bucket key body st) =
               st\<lparr>nodes := (nodes st)(q @ [Sha256Hash L key] \<mapsto> Dir,
                   q @ [Sha256Hash L key] @ [''metadata.json''] \<mapsto> File meta,
                   q @ [Sha256Hash L key] @ [''body''] \<mapsto> File body)\<rparr>"
proof (cases "Stat st (child (root s) bucket)")
  case (Inl e)
  with ok show ?thesis by (simp add: Put_nf)
next
  case (Inr x)
  show ?thesis
  proof (cases "dirAt st (child (root s) bucket)")
    case (Inl e)
    with ok Inr show ?thesis by (simp add: Put_nf)
  next
    case q: (Inr q)
    from ok have "fst (putObj L now key body st (q @ [Sha256Hash L key])) = None"
      by (simp add: Put_nf Inr q)
    from putObj_success [OF this] show ?thesis
      by (auto simp: Put_nf Inr q)
  qed
qed

lemma dirAt_Put:
  "dirAt st p = Inr q \<Longrightarrow> dirAt (snd (Put L s now bucket key body st)) p = Inr q"
proof (rule dirAt_mono)
  show "dirsKept st (snd (Put L s now bucket key body st))"
    by (simp add: Put_nf putObj_frame split: sum.splits)
qed

lemma Put_Get:
  assumes json: "\<And>b. json_Marshal L \<lparr>ContentHash = Sha256Hash L body, ContentSize = int (length body),
                          OriginalKey = key, LastModified = now\<rparr> = Some b \<Longrightarrow>
                     \<exists>m'. json_Unmarshal L b = Some m' \<and> ContentHash m' = Sha256Hash L body"
    and ok: "fst (Put L s now bucket key body st) = None"
  shows "Get L s bucket key (snd (Put L s now bucket key body st)) = Inr body"
proof -
  from Put_success [OF ok] obtain q meta where
    q: "dirAt st (child (root s) bucket) = Inr q" and
    m: "json_Marshal L \<lparr>ContentHash = Sha256Hash L body, ContentSize = int (length body),
                               OriginalKey = key, LastModified = now\<rparr> = Some meta" and
    st': "snd (Put L s now bucket key body st) =
               st\<lparr>nodes := (nodes st)(q @ [Sha256Hash L key] \<mapsto> Dir,
                   q @ [Sha256Hash L key] @ [''metadata.json''] \<mapsto> File meta,
                   q @ [Sha256Hash L key] @ [''body''] \<mapsto> File body)\<rparr>"
    by blast
  from json [OF m] obtain m' where
    u: "json_Unmarshal L meta = Some m'" "ContentHash m' = Sha256Hash L body" by blast
  have d: "dirAt (snd (Put L s now bucket key body st)) (child (root s) bucket) = Inr q"
    using q by (rule dirAt_Put)
  then have s: "Stat (snd (Put L s now bucket key body st)) (child (root s) bucket) = Inr Dir"
    by (rule dirAt_Stat)
  show ?thesis
    unfolding Get_nf d s
    by (simp add: st' getObj_def u)
qed

lemma Put_frame:
  assumes q: "dirAt st (child (root s) bucket) = Inr q"
  shows "cwd (snd (Put L s now bucket key body st)) = cwd st"
    and "\<not> prefix q x \<Longrightarrow> nodes (snd (Put L s now bucket key body st)) x = nodes st x"
proof -
  show "cwd (snd (Put L s now bucket key body st)) = cwd st"
    by (simp add: Put_nf q putObj_frame split: sum.splits)
  assume "\<not> prefix q x"
  then have "\<not> prefix (q @ [Sha256Hash L key]) x" by (auto dest: append_prefixD)
  then show "nodes (snd (Put L s now bucket key body st)) x = nodes st x"
    by (simp add: Put_nf q putObj_frame split: sum.splits)
qed

lemma Put_unchanged:
  "dirAt st (child (root s) bucket) = Inl e \<Longrightarrow> snd (Put L s now bucket key body st) = st"
  by (simp add: Put_nf split: sum.splits)

lemma Put_isolated:
  assumes r: "root s \<noteq> []" and a: "plainName A" and b: "plainName B" and ne: "A \<noteq> B"
  shows "Get L s B key' (snd (Put L s now A key body st)) = Get L s B key' st"
proof (cases "dirAt st (child (root s) A)")
  case (Inl e)
  then show ?thesis by (simp add: Put_unchanged)
next
  case (Inr qa)
  let ?st' = "snd (Put L s now A key body st)"
  from Inr obtain q where q: "dirAt st (root s) = Inr q" and qa: "qa = q @ [A]"
    by (auto simp: dirAt_child [OF r a] split: sum.splits option.splits node.splits)
  have q': "dirAt ?st' (root s) = Inr q" using q by (rule dirAt_Put)
  have same: "nodes ?st' (q @ B # x) = nodes st (q @ B # x)" for x
    using ne by (intro Put_frame(2) [OF Inr]) (simp add: qa)
  have s: "Stat ?st' (child (root s) B) = Stat st (child (root s) B)"
    using same [of "[]"] by (simp add: Stat_child [OF r b] q q')
  have d: "dirAt ?st' (child (root s) B) = dirAt st (child (root s) B)"
    using same [of "[]"] by (simp add: dirAt_child [OF r b] q q')
  have g: "getObj L (nodes ?st') ((q @ [B]) @ [h]) = getObj L (nodes st) ((q @ [B]) @ [h])" for h
    by (rule getObj_cong) (auto simp: prefix_def same)
  show ?thesis
    unfolding Get_nf s d
    using g by (auto simp: dirAt_child [OF r b] q split: sum.splits option.splits node.splits)
qed

lemma Delete_success:
  assumes ok: "fst (Delete L s bucket key st) = None"
  shows "\<exists>q. dirAt st (child (root s) bucket) = Inr q
           \<and> snd (Delete L s bucket key st) =
               st\<lparr>nodes := (\<lambda>x. if prefix (q @ [Sha256Hash L key]) x then None else nodes st x)\<rparr>"
  using ok by (auto simp: Delete_nf split: sum.splits option.splits)

lemma Delete_final:
  assumes nd: "''..'' \<notin> set (Split (root s) (CHR ''/''))" "''..'' \<notin> set (Split bucket (CHR ''/''))"
    and ok: "fst (Delete L s bucket key st) = None"
  shows "Get L s bucket key (snd (Delete L s bucket key st)) = Inl ObjectNotFound"
    and "Delete L s bucket key (snd (Delete L s bucket key st)) =
           (Some ObjectNotFound, snd (Delete L s bucket key st))"
proof -
  define st' where "st' = snd (Delete L s bucket key st)"
  let ?bd = "child (root s) bucket"
  from Delete_success [OF ok] obtain q where
    q: "dirAt st ?bd = Inr q" and
    st': "st' = st\<lparr>nodes := (\<lambda>x. if prefix (q @ [Sha256Hash L key]) x then None else nodes st x)\<rparr>"
    unfolding st'_def by blast
  have nd': "''..'' \<notin> set (Split ?bd (CHR ''/''))" using nd by (simp add: Split_child_any)
  have d: "dirAt st' ?bd = Inr q"
  proof (rule dirAt_keep [OF nd' q])
    show "cwd st' = cwd st" by (simp add: st')
    fix v assume "prefix v q"
    then have "\<not> prefix (q @ [Sha256Hash L key]) v"
      by (auto dest!: prefix_length_le)
    then show "nodes st' v = nodes st v" by (simp add: st')
  qed
  then have s: "Stat st' ?bd = Inr Dir" by (rule dirAt_Stat)
  have gone: "nodes st' (q @ [Sha256Hash L key]) = None" by (simp add: st')
  have "Get L s bucket key st' = Inl ObjectNotFound"
    unfolding Get_nf d s by (simp add: getObj_def gone)
  then show "Get L s bucket key (snd (Delete L s bucket key st)) = Inl ObjectNotFound"
    by (simp add: st'_def)
  have "Delete L s bucket key st' = (Some ObjectNotFound, st')"
    unfolding Delete_nf d s by (simp add: gone)
  then show "Delete L s bucket key (snd (Delete L s bucket key st)) =
           (Some ObjectNotFound, snd (Delete L s bucket key st))"
    by (simp add: st'_def)
qed

lemma Delete_no_bucket:
  "(Delete L s bucket key st = (Some BucketNotFound, st)) = (\<not> existPath s bucket st)"
  by (auto simp: Delete_def Let_def BucketNotFound_def ObjectNotFound_def osError_def
      StatusNotFound_def split: prod.splits option.splits)

lemma alias_dot:
  "Get L s (''./'' @ bucket) key st = Get L s bucket key st"
  "Put L s now (''./'' @ bucket) key body st = Put L s now bucket key body st"
  "Delete L s (''./'' @ bucket) key st = Delete L s bucket key st"
  by (simp_all add: Get_nf Put_nf Delete_nf Stat_dot dirAt_dot cong: sum.case_cong)

lemma existPath_Stat:
  "existPath s p st = (case Stat st (child (root s) p) of Inl e \<Rightarrow> False | Inr n \<Rightarrow> True)"
  by (simp add: existPath_def child_def)

lemma never_bad_request:
  "Get L s bucket key st \<noteq> Inl (DomainError msg StatusBadRequest)"
  "fst (Put L s now bucket key body st) \<noteq> Some (DomainError msg StatusBadRequest)"
  "fst (Delete L s bucket key st) \<noteq> Some (DomainError msg StatusBadRequest)"
proof -
  show "Get L s bucket key st \<noteq> Inl (DomainError msg StatusBadRequest)"
    by (auto simp: Get_nf getObj_def BucketNotFound_def ObjectNotFound_def IntegrityError_def
        StatusNotFound_def StatusBadRequest_def
        split: sum.splits option.splits node.splits)
  show "fst (Put L s now bucket key body st) \<noteq> Some (DomainError msg StatusBadRequest)"
    by (auto simp: Put_nf putObj_def BucketNotFound_def StatusNotFound_def StatusBadRequest_def
        split: sum.splits option.splits node.splits)
  show "fst (Delete L s bucket key st) \<noteq> Some (DomainError msg StatusBadRequest)"
    by (auto simp: Delete_nf BucketNotFound_def ObjectNotFound_def StatusNotFound_def
        StatusBadRequest_def split: sum.splits option.splits)
qed

lemma bucket_not_found_iff:
  "(Get L s bucket key st = Inl BucketNotFound) = (\<not> existPath s bucket st)"
  "(fst (Put L s now bucket key body st) = Some BucketNotFound) = (\<not> existPath s bucket st)"
  "(fst (Delete L s bucket key st) = Some BucketNotFound) = (\<not> existPath s bucket st)"
proof -
  show "(Get L s bucket key st = Inl BucketNotFound) = (\<not> existPath s bucket st)"
    by (auto simp: Get_nf getObj_def existPath_Stat BucketNotFound_def ObjectNotFound_def
        IntegrityError_def
        split: sum.splits option.splits node.splits)
  show "(fst (Put L s now bucket key body st) = Some BucketNotFound) = (\<not> existPath s bucket st)"
    by (auto simp: Put_nf putObj_def existPath_Stat BucketNotFound_def
        split: sum.splits option.splits node.splits)
  show "(fst (Delete L s bucket key st) = Some BucketNotFound) = (\<not> existPath s bucket st)"
    by (auto simp: Delete_nf existPath_Stat BucketNotFound_def ObjectNotFound_def
        split: sum.splits option.splits)
qed

text \<open>The sample store, with every digest function.\<close>

lemma my_bucket_valid: "validName L ''my-bucket'' = None"
  by (simp add: validName_def validRune_def IsLower_def IsDigit_def inRange_def ParseIP_def
      HasPrefix_def HasSuffix_def ipv4Field_def suffix_to_prefix)

lemma my_bucket_plain: "plainName ''my-bucket''"
  by (simp add: plainName_def)

lemma sample_root: "dirAt sampleFs ''./data'' = Inr [''srv'', ''data'']" "Stat sampleFs ''./data'' = Inr Dir"
  by code_simp+

lemma sample_paths:
  "root sampleStorage @ ''/'' @ ''my-bucket'' = child ''./data'' ''my-bucket''"
  "child (root sampleStorage) ''my-bucket'' = child ''./data'' ''my-bucket''"
  by (simp_all add: sampleStorage_def child_def)

lemma data_nonempty: "''./data'' \<noteq> []" by simp

lemma NewBucket_sample:
  "NewBucket L sampleStorage ''my-bucket'' sampleFs =
     (None, sampleFs\<lparr>nodes := (nodes sampleFs)([''srv'', ''data'', ''my-bucket''] \<mapsto> Dir)\<rparr>)"
proof -
  have n: "nodes sampleFs [''srv'', ''data'', ''my-bucket''] = None" by (simp add: sampleFs_def)
  have e: "\<not> existPath sampleStorage ''my-bucket'' sampleFs"
    by (simp add: existPath_Stat sample_paths Stat_child [OF data_nonempty my_bucket_plain]
        sample_root n)
  show ?thesis
    unfolding NewBucket_def sample_paths
    by (simp add: my_bucket_valid e MkdirAll_child [OF data_nonempty my_bucket_plain sample_root(2)]
        sample_root n osError_def)
qed

lemma bucketFs_eq:
  "bucketFs L = sampleFs\<lparr>nodes := (nodes sampleFs)([''srv'', ''data'', ''my-bucket''] \<mapsto> Dir)\<rparr>"
  by (simp add: bucketFs_def NewBucket_sample)

lemma bucketFs_dir:
  "dirAt (bucketFs L) (child (root sampleStorage) ''my-bucket'') = Inr [''srv'', ''data'', ''my-bucket'']"
proof -
  have "dirAt (bucketFs L) ''./data'' = Inr [''srv'', ''data'']"
    unfolding bucketFs_eq by (rule dirAt_upd [OF sample_root(1)]) simp
  then show ?thesis
    by (simp add: sample_paths dirAt_child [OF data_nonempty my_bucket_plain] bucketFs_eq)
qed

lemma json_withDigest:
  "json_Marshal (withDigest d) m = Some b \<Longrightarrow>
   \<exists>m'. json_Unmarshal (withDigest d) b = Some m' \<and> ContentHash m' = ContentHash m"
  by (auto simp: withDigest_def checksumLib_def)

lemma Put_sample:
  "fst (Put (withDigest d) sampleStorage now ''my-bucket'' ''k'' body (bucketFs (withDigest d))) = None"
proof -
  let ?L = "withDigest d"
  have s: "Stat (bucketFs ?L) (child (root sampleStorage) ''my-bucket'') = Inr Dir"
    using bucketFs_dir by (rule dirAt_Stat)
  have len: "length (Sha256Hash ?L ''k'') = 64" by (rule length_Sha256Hash)
  have n: "nodes (bucketFs ?L) ([''srv'', ''data'', ''my-bucket''] @ Sha256Hash ?L ''k'' # x) = None" for x
    by (simp add: bucketFs_eq sampleFs_def)
  show ?thesis
    unfolding Put_nf s bucketFs_dir
    using n [of "[]"] n [of "[''metadata.json'']"] n [of "[''body'']"]
    by (simp add: putObj_def withDigest_def checksumLib_def)
qed

lemma Get_sample:
  "Get (withDigest d) sampleStorage ''my-bucket'' ''k'' (storedFs (withDigest d)) = Inr ''hello''"
  unfolding storedFs_def
  by (rule Put_Get [OF _ Put_sample]) (auto dest: json_withDigest)

lemma storedFs_facts:
  fixes d
  defines "L \<equiv> withDigest d"
  defines "q \<equiv> [''srv'', ''data'', ''my-bucket'']"
  defines "h \<equiv> Sha256Hash L ''k''"
  shows "dirAt (storedFs L) (child (root sampleStorage) ''my-bucket'') = Inr q"
    and "nodes (storedFs L) (q @ [h]) = Some Dir"
    and "nodes (storedFs L) q = Some Dir"
proof -
  have b: "dirAt (bucketFs L) (child (root sampleStorage) ''my-bucket'') = Inr q"
    unfolding q_def by (rule bucketFs_dir)
  show d: "dirAt (storedFs L) (child (root sampleStorage) ''my-bucket'') = Inr q"
    unfolding storedFs_def by (rule dirAt_Put [OF b])
  then show "nodes (storedFs L) q = Some Dir" by (rule dirAt_Dir)
  have ok: "fst (Put L sampleStorage 1700000000 ''my-bucket'' ''k'' ''hello'' (bucketFs L)) = None"
    unfolding L_def by (rule Put_sample)
  from Put_success [OF ok] b show "nodes (storedFs L) (q @ [h]) = Some Dir"
    by (auto simp: storedFs_def h_def)
qed

lemma storedFs_files:
  fixes d
  defines "L \<equiv> withDigest d"
  defines "q \<equiv> [''srv'', ''data'', ''my-bucket'']"
  defines "h \<equiv> Sha256Hash L ''k''"
  shows "\<exists>meta. nodes (storedFs L) (q @ [h, ''metadata.json'']) = Some (File meta)"
    and "nodes (storedFs L) (q @ [h, ''body'']) = Some (File ''hello'')"
proof -
  have b: "dirAt (bucketFs L) (child (root sampleStorage) ''my-bucket'') = Inr q"
    unfolding q_def by (rule bucketFs_dir)
  have ok: "fst (Put L sampleStorage 1700000000 ''my-bucket'' ''k'' ''hello'' (bucketFs L)) = None"
    unfolding L_def by (rule Put_sample)
  from Put_success [OF ok] b
  show "\<exists>meta. nodes (storedFs L) (q @ [h, ''metadata.json'']) = Some (File meta)"
    and "nodes (storedFs L) (q @ [h, ''body'']) = Some (File ''hello'')"
    by (auto simp: storedFs_def h_def)
qed

lemma Put_again_sample:
  "fst (Put (withDigest d) sampleStorage now ''my-bucket'' ''k'' body (storedFs (withDigest d))) = None"
proof -
  let ?L = "withDigest d"
  note f = storedFs_facts [of d]
  have s: "Stat (storedFs ?L) (child (root sampleStorage) ''my-bucket'') = Inr Dir"
    using f(1) by (rule dirAt_Stat)
  from storedFs_files(1) [of d] obtain meta where
    m: "nodes (storedFs ?L) ([''srv'', ''data'', ''my-bucket''] @ [Sha256Hash ?L ''k'', ''metadata.json'']) =
        Some (File meta)" by blast
  show ?thesis
    unfolding Put_nf s f(1)
    using f(2) m storedFs_files(2) [of d]
    by (simp add: putObj_def withDigest_def checksumLib_def)
qed

lemma Delete_sample:
  "fst (Delete (withDigest d) sampleStorage ''my-bucket'' ''k'' (storedFs (withDigest d))) = None"
proof -
  note f = storedFs_facts [of d]
  have s: "Stat (storedFs (withDigest d)) (child (root sampleStorage) ''my-bucket'') = Inr Dir"
    using f(1) by (rule dirAt_Stat)
  show ?thesis unfolding Delete_nf s f(1) using f(2) by simp
qed

text \<open>
  Claim C5. In a state where the bucket's path and the object's path exist, the body file
  and the metadata file are read, the metadata is decoded, and the digest of the body
  differs from the content hash the metadata records, \<^verbatim>\<open>Get\<close> returns the integrity
  error, which is not the object-not-found error, and it does not return the body.
\<close>

theorem Get_integrity_error:
  assumes "existPath s bucket st"
    and "existPath s (bucket @ ''/'' @ Sha256Hash L key) st"
    and "ReadFile st (root s @ ''/'' @ bucket @ ''/'' @ Sha256Hash L key @ ''/body'') = Inr body"
    and "ReadFile st (root s @ ''/'' @ bucket @ ''/'' @ Sha256Hash L key @ ''/metadata.json'') = Inr b"
    and "json_Unmarshal L b = Some meta"
    and "Sha256Hash L body \<noteq> ContentHash meta"
  shows "Get L s bucket key st = Inl IntegrityError
       \<and> Get L s bucket key st \<noteq> Inr body
       \<and> IntegrityError \<noteq> ObjectNotFound"
  using assms by (simp add: Get_def Let_def IntegrityError_def ObjectNotFound_def)

text \<open>
  The theorem at the sample store, after the body \<^verbatim>\<open>hello\<close> of the key \<^verbatim>\<open>k\<close> is
  overwritten by \<^verbatim>\<open>jello\<close> behind the store's back: \<^verbatim>\<open>Get\<close> returned \<^verbatim>\<open>hello\<close> before,
  and returns the integrity error after.
\<close>

theorem Get_integrity_error_witness:
  "existPath sampleStorage ''my-bucket'' corruptedFs
   \<and> existPath sampleStorage (''my-bucket'' @ ''/'' @ Sha256Hash checksumLib ''k'') corruptedFs
   \<and> ReadFile corruptedFs
        (root sampleStorage @ ''/'' @ ''my-bucket'' @ ''/'' @ Sha256Hash checksumLib ''k'' @ ''/body'') =
      Inr ''jello''
   \<and> Sha256Hash checksumLib ''jello'' \<noteq> Sha256Hash checksumLib ''hello''
   \<and> Get checksumLib sampleStorage ''my-bucket'' ''k'' (storedFs checksumLib) = Inr ''hello''
   \<and> Get checksumLib sampleStorage ''my-bucket'' ''k'' corruptedFs = Inl IntegrityError"
proof -
  have w1: "existPath sampleStorage ''my-bucket'' corruptedFs" by code_simp
  have w2: "existPath sampleStorage (''my-bucket'' @ ''/'' @ Sha256Hash checksumLib ''k'') corruptedFs"
    by code_simp
  have w3: "ReadFile corruptedFs
              (root sampleStorage @ ''/'' @ ''my-bucket'' @ ''/'' @ Sha256Hash checksumLib ''k'' @ ''/body'') =
            Inr ''jello''"
    by code_simp
  have w4: "ReadFile corruptedFs
              (root sampleStorage @ ''/'' @ ''my-bucket'' @ ''/'' @ Sha256Hash checksumLib ''k''
                 @ ''/metadata.json'') =
            Inr (Sha256Hash checksumLib ''hello'')"
    by code_simp
  have w5: "json_Unmarshal checksumLib (Sha256Hash checksumLib ''hello'') =
            Some \<lparr>ContentHash = Sha256Hash checksumLib ''hello'', ContentSize = 0,
                  OriginalKey = [], LastModified = 0\<rparr>"
    by (simp add: checksumLib_def)
  have w6: "Sha256Hash checksumLib ''jello'' \<noteq> Sha256Hash checksumLib ''hello''" by code_simp
  have w6': "Sha256Hash checksumLib ''jello'' \<noteq>
             ContentHash \<lparr>ContentHash = Sha256Hash checksumLib ''hello'', ContentSize = 0,
                  OriginalKey = [], LastModified = 0\<rparr>"
    using w6 by simp
  have w7: "Get checksumLib sampleStorage ''my-bucket'' ''k'' (storedFs checksumLib) = Inr ''hello''" by code_simp
  from Get_integrity_error [OF w1 w2 w3 w4 w5 w6'] w1 w2 w3 w6 w7 show ?thesis by simp
qed

text \<open>
  Claim C1. Whenever \<^verbatim>\<open>Put(bucket, key, body)\<close> returns \<^verbatim>\<open>nil\<close>, \<^verbatim>\<open>Get(bucket, key)\<close> in
  the state it leaves returns exactly \<open>body\<close>. The state before the \<^verbatim>\<open>Put\<close> is any
  state, so an earlier \<^verbatim>\<open>Put\<close> to the same bucket and key does not matter: after
  \<^verbatim>\<open>Put\<close> of a first body and \<^verbatim>\<open>Put\<close> of a second, \<^verbatim>\<open>Get\<close> returns the second. The
  theorem holds for every bucket string and every body, the empty one included. The
  first premise is what the theorem needs of \<^verbatim>\<open>encoding/json\<close>, which is a parameter:
  the metadata that \<^verbatim>\<open>Put\<close> encodes is decoded with the same content hash.
\<close>

theorem Put_then_Get:
  assumes "\<forall>b. json_Marshal L \<lparr>ContentHash = Sha256Hash L body, ContentSize = int (length body),
                                   OriginalKey = key, LastModified = now\<rparr> = Some b \<longrightarrow>
               (\<exists>m. json_Unmarshal L b = Some m \<and> ContentHash m = Sha256Hash L body)"
    and "fst (Put L s now bucket key body st) = None"
  shows "Get L s bucket key (snd (Put L s now bucket key body st)) = Inr body"
  using assms by (intro Put_Get) auto

text \<open>
  The theorem at the sample store, with every digest function and the sample codec,
  which decodes what it encodes: the bucket \<^verbatim>\<open>my-bucket\<close> is valid and made, \<^verbatim>\<open>hello\<close>
  is put under \<^verbatim>\<open>k\<close> and read back, then the empty body is put under \<^verbatim>\<open>k\<close> and read
  back.
\<close>

theorem Put_then_Get_witness:
  "\<forall>d. (\<forall>m. json_Marshal (withDigest d) m = Some (ContentHash m))
     \<and> (\<forall>b. \<exists>m. json_Unmarshal (withDigest d) b = Some m \<and> ContentHash m = b)
     \<and> validName (withDigest d) ''my-bucket'' = None
     \<and> fst (NewBucket (withDigest d) sampleStorage ''my-bucket'' sampleFs) = None
     \<and> fst (Put (withDigest d) sampleStorage 1700000000 ''my-bucket'' ''k'' ''hello''
              (bucketFs (withDigest d))) = None
     \<and> Get (withDigest d) sampleStorage ''my-bucket'' ''k'' (storedFs (withDigest d)) = Inr ''hello''
     \<and> fst (Put (withDigest d) sampleStorage 1700000060 ''my-bucket'' ''k'' []
              (storedFs (withDigest d))) = None
     \<and> Get (withDigest d) sampleStorage ''my-bucket'' ''k''
         (snd (Put (withDigest d) sampleStorage 1700000060 ''my-bucket'' ''k'' []
                (storedFs (withDigest d)))) = Inr []"
proof
  fix d
  let ?L = "withDigest d"
  have j: "\<forall>b. json_Marshal ?L \<lparr>ContentHash = Sha256Hash ?L body, ContentSize = int (length body),
                                   OriginalKey = ''k'', LastModified = now\<rparr> = Some b \<longrightarrow>
               (\<exists>m. json_Unmarshal ?L b = Some m \<and> ContentHash m = Sha256Hash ?L body)" for body now
    by (auto dest: json_withDigest)
  have g1: "Get ?L sampleStorage ''my-bucket'' ''k'' (storedFs ?L) = Inr ''hello''"
    unfolding storedFs_def by (rule Put_then_Get [OF j Put_sample])
  have g2: "Get ?L sampleStorage ''my-bucket'' ''k''
         (snd (Put ?L sampleStorage 1700000060 ''my-bucket'' ''k'' [] (storedFs ?L))) = Inr []"
    by (rule Put_then_Get [OF j Put_again_sample])
  have c: "\<forall>m. json_Marshal ?L m = Some (ContentHash m)"
    "\<forall>b. \<exists>m. json_Unmarshal ?L b = Some m \<and> ContentHash m = b"
    by (simp_all add: withDigest_def checksumLib_def)
  show "(\<forall>m. json_Marshal ?L m = Some (ContentHash m))
     \<and> (\<forall>b. \<exists>m. json_Unmarshal ?L b = Some m \<and> ContentHash m = b)
     \<and> validName ?L ''my-bucket'' = None
     \<and> fst (NewBucket ?L sampleStorage ''my-bucket'' sampleFs) = None
     \<and> fst (Put ?L sampleStorage 1700000000 ''my-bucket'' ''k'' ''hello'' (bucketFs ?L)) = None
     \<and> Get ?L sampleStorage ''my-bucket'' ''k'' (storedFs ?L) = Inr ''hello''
     \<and> fst (Put ?L sampleStorage 1700000060 ''my-bucket'' ''k'' [] (storedFs ?L)) = None
     \<and> Get ?L sampleStorage ''my-bucket'' ''k''
         (snd (Put ?L sampleStorage 1700000060 ''my-bucket'' ''k'' [] (storedFs ?L))) = Inr []"
    using g1 g2 c by (simp add: my_bucket_valid NewBucket_sample Put_sample Put_again_sample)
qed

text \<open>
  Claim C4, as amended. For two distinct bucket names that \<^verbatim>\<open>validName\<close> accepts, in a
  store whose root path is not empty (\<^verbatim>\<open>NewStorage\<close> refuses the empty path), a
  \<^verbatim>\<open>Put\<close> into the first bucket changes nothing of what \<^verbatim>\<open>Get\<close> returns from the
  second, for any keys: \<^verbatim>\<open>Get\<close> on the second bucket fails as it failed before, or
  returns what was stored there before.
\<close>

theorem bucket_isolation:
  assumes "root s \<noteq> []" and "validName L bucketA = None" and "validName L bucketB = None"
    and "bucketA \<noteq> bucketB"
  shows "Get L s bucketB key' (snd (Put L s now bucketA key body st)) = Get L s bucketB key' st"
  using assms by (intro Put_isolated validName_plain)

text \<open>
  The theorem at the sample store with two buckets that hold the same key: after a
  \<^verbatim>\<open>Put\<close> into \<^verbatim>\<open>my-bucket\<close>, the other bucket still returns its own body.
\<close>

theorem bucket_isolation_witness:
  "root sampleStorage \<noteq> []
   \<and> validName checksumLib ''my-bucket'' = None \<and> validName checksumLib ''other-bucket'' = None
   \<and> ''my-bucket'' \<noteq> ''other-bucket''
   \<and> Get checksumLib sampleStorage ''other-bucket'' ''k'' twoBucketsFs = Inr ''theirs''
   \<and> fst (Put checksumLib sampleStorage 1700000120 ''my-bucket'' ''k'' ''mine'' twoBucketsFs) = None
   \<and> Get checksumLib sampleStorage ''other-bucket'' ''k''
       (snd (Put checksumLib sampleStorage 1700000120 ''my-bucket'' ''k'' ''mine'' twoBucketsFs)) =
     Inr ''theirs''
   \<and> Get checksumLib sampleStorage ''my-bucket'' ''k''
       (snd (Put checksumLib sampleStorage 1700000120 ''my-bucket'' ''k'' ''mine'' twoBucketsFs)) =
     Inr ''mine''"
proof -
  have h1: "root sampleStorage \<noteq> []" by (simp add: sampleStorage_def)
  have h2: "validName checksumLib ''my-bucket'' = None" by (rule my_bucket_valid)
  have h3: "validName checksumLib ''other-bucket'' = None" by code_simp
  have h4: "''my-bucket'' \<noteq> ''other-bucket''" by simp
  have g: "Get checksumLib sampleStorage ''other-bucket'' ''k'' twoBucketsFs = Inr ''theirs''"
    by code_simp
  have p: "fst (Put checksumLib sampleStorage 1700000120 ''my-bucket'' ''k'' ''mine'' twoBucketsFs) = None"
    by code_simp
  have m: "Get checksumLib sampleStorage ''my-bucket'' ''k''
       (snd (Put checksumLib sampleStorage 1700000120 ''my-bucket'' ''k'' ''mine'' twoBucketsFs)) =
     Inr ''mine''"
    by code_simp
  from bucket_isolation [OF h1 h2 h3 h4, of "''k''" 1700000120 "''k''" "''mine''" twoBucketsFs]
    h1 h2 h3 h4 g p m
  show ?thesis by simp
qed

text \<open>
  Claim C4 as stated fails for the distinct bucket strings \<^verbatim>\<open>my-bucket\<close> and
  \<^verbatim>\<open>./my-bucket\<close>, with every digest function: the body stored by
  \<^verbatim>\<open>Put("my-bucket", "k", "hello")\<close> is returned by \<^verbatim>\<open>Get("./my-bucket", "k")\<close>, and
  nothing was ever stored under the bucket string \<^verbatim>\<open>./my-bucket\<close>.
\<close>

theorem bucket_isolation_counterexample:
  "\<forall>d. ''my-bucket'' \<noteq> ''./my-bucket''
     \<and> fst (NewBucket (withDigest d) sampleStorage ''my-bucket'' sampleFs) = None
     \<and> fst (Put (withDigest d) sampleStorage 1700000000 ''my-bucket'' ''k'' ''hello''
              (bucketFs (withDigest d))) = None
     \<and> Get (withDigest d) sampleStorage ''./my-bucket'' ''k'' (storedFs (withDigest d)) = Inr ''hello''"
  using alias_dot(1) [of _ sampleStorage "''my-bucket''" "''k''"]
  by (simp add: NewBucket_sample Put_sample Get_sample)

text \<open>
  Claim C6, as amended. When neither the store's root path nor the bucket string has a
  \<^verbatim>\<open>..\<close> component (no name that \<^verbatim>\<open>validName\<close> accepts has one: lemma
  \<open>validName_no_dotdot\<close>), and \<^verbatim>\<open>Delete(bucket, key)\<close> returns \<^verbatim>\<open>nil\<close>, then in the state
  it leaves \<^verbatim>\<open>Get(bucket, key)\<close> fails with the object-not-found error and a second
  \<^verbatim>\<open>Delete(bucket, key)\<close> fails with the object-not-found error and changes nothing.
  For every bucket string, \<^verbatim>\<open>Delete\<close> fails with the bucket-not-found error, changing
  nothing, exactly when the bucket's path does not exist.
\<close>

theorem Delete_then_not_found:
  assumes "''..'' \<notin> set (Split (root s) (CHR ''/''))" and "''..'' \<notin> set (Split bucket (CHR ''/''))"
    and "fst (Delete L s bucket key st) = None"
  shows "Get L s bucket key (snd (Delete L s bucket key st)) = Inl ObjectNotFound
       \<and> Delete L s bucket key (snd (Delete L s bucket key st)) =
           (Some ObjectNotFound, snd (Delete L s bucket key st))
       \<and> (Delete L s bucket' key' st0 = (Some BucketNotFound, st0)) = (\<not> existPath s bucket' st0)"
  using Delete_final [OF assms] Delete_no_bucket by simp

text \<open>
  The theorem at the sample store, with every digest function: the object of the key
  \<^verbatim>\<open>k\<close> is there, is deleted, and then neither \<^verbatim>\<open>Get\<close> nor a second \<^verbatim>\<open>Delete\<close> finds
  it; and no bucket \<^verbatim>\<open>no-bucket\<close> exists.
\<close>

theorem Delete_then_not_found_witness:
  "\<forall>d. ''..'' \<notin> set (Split (root sampleStorage) (CHR ''/''))
     \<and> ''..'' \<notin> set (Split ''my-bucket'' (CHR ''/''))
     \<and> Get (withDigest d) sampleStorage ''my-bucket'' ''k'' (storedFs (withDigest d)) = Inr ''hello''
     \<and> fst (Delete (withDigest d) sampleStorage ''my-bucket'' ''k'' (storedFs (withDigest d))) = None
     \<and> Get (withDigest d) sampleStorage ''my-bucket'' ''k''
         (snd (Delete (withDigest d) sampleStorage ''my-bucket'' ''k'' (storedFs (withDigest d)))) =
       Inl ObjectNotFound
     \<and> fst (Delete (withDigest d) sampleStorage ''my-bucket'' ''k''
         (snd (Delete (withDigest d) sampleStorage ''my-bucket'' ''k'' (storedFs (withDigest d))))) =
       Some ObjectNotFound
     \<and> \<not> existPath sampleStorage ''no-bucket'' sampleFs
     \<and> Delete (withDigest d) sampleStorage ''no-bucket'' ''k'' sampleFs = (Some BucketNotFound, sampleFs)"
proof
  fix d
  let ?L = "withDigest d"
  have h1: "''..'' \<notin> set (Split (root sampleStorage) (CHR ''/''))" by (simp add: sampleStorage_def)
  have h2: "''..'' \<notin> set (Split ''my-bucket'' (CHR ''/''))" by simp
  have e: "\<not> existPath sampleStorage ''no-bucket'' sampleFs" by code_simp
  note t = Delete_then_not_found [OF h1 h2 Delete_sample, of d "''no-bucket''" "''k''" sampleFs]
  show "''..'' \<notin> set (Split (root sampleStorage) (CHR ''/''))
     \<and> ''..'' \<notin> set (Split ''my-bucket'' (CHR ''/''))
     \<and> Get ?L sampleStorage ''my-bucket'' ''k'' (storedFs ?L) = Inr ''hello''
     \<and> fst (Delete ?L sampleStorage ''my-bucket'' ''k'' (storedFs ?L)) = None
     \<and> Get ?L sampleStorage ''my-bucket'' ''k''
         (snd (Delete ?L sampleStorage ''my-bucket'' ''k'' (storedFs ?L))) =
       Inl ObjectNotFound
     \<and> fst (Delete ?L sampleStorage ''my-bucket'' ''k''
         (snd (Delete ?L sampleStorage ''my-bucket'' ''k'' (storedFs ?L)))) =
       Some ObjectNotFound
     \<and> \<not> existPath sampleStorage ''no-bucket'' sampleFs
     \<and> Delete ?L sampleStorage ''no-bucket'' ''k'' sampleFs = (Some BucketNotFound, sampleFs)"
    using t h1 h2 e Delete_sample [of d] Get_sample [of d] by simp
qed

text \<open>
  Claim C6 as stated fails for the bucket string \<^verbatim>\<open>my-bucket/<hash of k>/..\<close>, with every
  digest function: the bucket's path exists, the object of the key \<^verbatim>\<open>k\<close> exists under it
  (\<^verbatim>\<open>Get\<close> returns its body) and \<^verbatim>\<open>Delete\<close> returns \<^verbatim>\<open>nil\<close>; after that, \<^verbatim>\<open>Get\<close>
  fails with the bucket-not-found error, not the object-not-found error, because the
  bucket's path went through the directory that \<^verbatim>\<open>Delete\<close> removed.
\<close>

theorem Delete_then_not_found_counterexample:
  "\<forall>d. existPath sampleStorage (dotdotBucket (withDigest d)) (storedFs (withDigest d))
     \<and> Get (withDigest d) sampleStorage (dotdotBucket (withDigest d)) ''k'' (storedFs (withDigest d)) =
         Inr ''hello''
     \<and> fst (Delete (withDigest d) sampleStorage (dotdotBucket (withDigest d)) ''k''
              (storedFs (withDigest d))) = None
     \<and> Get (withDigest d) sampleStorage (dotdotBucket (withDigest d)) ''k''
         (snd (Delete (withDigest d) sampleStorage (dotdotBucket (withDigest d)) ''k''
                (storedFs (withDigest d)))) = Inl BucketNotFound
     \<and> BucketNotFound \<noteq> ObjectNotFound"
proof (intro allI)
  fix d
  define L where "L = withDigest d"
  define q where "q = [''srv'', ''data'', ''my-bucket'']"
  define h where "h = Sha256Hash L ''k''"
  define st2 where "st2 = storedFs L"
  define bd where "bd = child (root sampleStorage) ''my-bucket''"
  define w where "w = child (root sampleStorage) (dotdotBucket L)"
  have ph: "plainName h" unfolding h_def by (rule plain_Sha256Hash)
  have ne: "bd \<noteq> []" "child bd h \<noteq> []" by (simp_all add: bd_def)
  have w: "w = child (child bd h) ''..''"
    by (simp add: w_def dotdotBucket_def bd_def child_assoc h_def)
  note f = storedFs_facts [of d, folded L_def, folded q_def h_def st2_def bd_def]
  have od: "dirAt st2 (child bd h) = Inr (q @ [h])"
    by (simp add: dirAt_child [OF ne(1) ph] f)
  have rw: "resolve st2 w = Inr q"
    by (simp add: w resolve_dotdot [OF ne(2)] od)
  have sw: "Stat st2 w = Inr Dir" and dw: "dirAt st2 w = Inr q"
    by (simp_all add: Stat_def dirAt_def rw f)
  have sb: "Stat st2 bd = Inr Dir" using f(1) by (rule dirAt_Stat)
  have g0: "Get L sampleStorage (dotdotBucket L) ''k'' st2 = Get L sampleStorage ''my-bucket'' ''k'' st2"
    unfolding Get_nf w_def [symmetric] bd_def [symmetric] by (simp add: sw dw sb f)
  have g1: "Get L sampleStorage ''my-bucket'' ''k'' st2 = Inr ''hello''"
    unfolding st2_def L_def by (rule Get_sample)
  define st3 where "st3 = st2\<lparr>nodes := (\<lambda>x. if prefix (q @ [h]) x then None else nodes st2 x)\<rparr>"
  have del: "Delete L sampleStorage (dotdotBucket L) ''k'' st2 = (None, st3)"
    unfolding Delete_nf w_def [symmetric] h_def [symmetric]
    by (simp add: sw dw f st3_def)
  have "dirAt st3 (child bd h) = Inl ENOENT \<or> (\<exists>e. dirAt st3 bd = Inl e)"
  proof (cases "dirAt st3 bd")
    case (Inl e)
    then show ?thesis by blast
  next
    case (Inr q')
    have "dirAt st3 bd = Inr q"
    proof (rule dirAt_keep [OF _ f(1)])
      show "''..'' \<notin> set (Split bd (CHR ''/''))"
        by (simp add: bd_def sampleStorage_def Split_child_any)
      show "cwd st3 = cwd st2" by (simp add: st3_def)
      fix v assume "prefix v q"
      then have "\<not> prefix (q @ [h]) v" by (auto dest!: prefix_length_le)
      then show "nodes st3 v = nodes st2 v" by (simp add: st3_def)
    qed
    then show ?thesis by (simp add: dirAt_child [OF ne(1) ph] st3_def)
  qed
  then have "\<exists>e. dirAt st3 (child bd h) = Inl e"
    by (auto simp: dirAt_child [OF ne(1) ph])
  then have "\<exists>e. Stat st3 w = Inl e"
    by (auto simp: Stat_def w resolve_dotdot [OF ne(2)])
  then have g3: "Get L sampleStorage (dotdotBucket L) ''k'' st3 = Inl BucketNotFound"
    unfolding Get_nf w_def [symmetric] by auto
  have ex: "existPath sampleStorage (dotdotBucket L) st2"
    by (simp add: existPath_Stat w_def [symmetric] sw)
  have ne': "BucketNotFound \<noteq> ObjectNotFound"
    by (simp add: BucketNotFound_def ObjectNotFound_def)
  show "existPath sampleStorage (dotdotBucket (withDigest d)) (storedFs (withDigest d))
     \<and> Get (withDigest d) sampleStorage (dotdotBucket (withDigest d)) ''k'' (storedFs (withDigest d)) =
         Inr ''hello''
     \<and> fst (Delete (withDigest d) sampleStorage (dotdotBucket (withDigest d)) ''k''
              (storedFs (withDigest d))) = None
     \<and> Get (withDigest d) sampleStorage (dotdotBucket (withDigest d)) ''k''
         (snd (Delete (withDigest d) sampleStorage (dotdotBucket (withDigest d)) ''k''
                (storedFs (withDigest d)))) = Inl BucketNotFound
     \<and> BucketNotFound \<noteq> ObjectNotFound"
    using ex g0 g1 del g3 ne' by (simp add: L_def [symmetric] st2_def [symmetric])
qed

lemma same_directory:
  assumes "resolve st (child (root s) b1) = resolve st (child (root s) b2)"
  shows "Get L s b1 key st = Get L s b2 key st"
    and "Put L s now b1 key body st = Put L s now b2 key body st"
    and "Delete L s b1 key st = Delete L s b2 key st"
  by (simp_all add: Get_nf Put_nf Delete_nf Stat_def dirAt_def assms cong: sum.case_cong)

lemma dot_slash_invalid: "validName L ''./my-bucket'' \<noteq> None"
proof
  assume "validName L ''./my-bucket'' = None"
  then have "plainName ''./my-bucket''" by (rule validName_plain)
  then show False by (simp add: plainName_def)
qed

text \<open>
  Claim C10. For every bucket string, \<^verbatim>\<open>Get\<close>, \<^verbatim>\<open>Put\<close> and \<^verbatim>\<open>Delete\<close> fail with the
  bucket-not-found error exactly when the path \<^verbatim>\<open>root + "/" + bucket\<close> does not exist;
  none of them returns an error of status 400, which every error of \<^verbatim>\<open>validName\<close> is
  (lemma \<open>validName_errors\<close>); two bucket strings whose paths resolve to the same
  location give the same result and the same state in all three operations; and the
  bucket strings \<^verbatim>\<open>b\<close> and \<^verbatim>\<open>./b\<close> do, for every string \<^verbatim>\<open>b\<close>, store and state.
\<close>

theorem bucket_never_validated:
  "(Get L s bucket key st = Inl BucketNotFound) = (\<not> existPath s bucket st)
   \<and> (fst (Put L s now bucket key body st) = Some BucketNotFound) = (\<not> existPath s bucket st)
   \<and> (fst (Delete L s bucket key st) = Some BucketNotFound) = (\<not> existPath s bucket st)
   \<and> (\<forall>msg. Get L s bucket key st \<noteq> Inl (DomainError msg StatusBadRequest)
          \<and> fst (Put L s now bucket key body st) \<noteq> Some (DomainError msg StatusBadRequest)
          \<and> fst (Delete L s bucket key st) \<noteq> Some (DomainError msg StatusBadRequest))
   \<and> (resolve st (root s @ ''/'' @ bucket) = resolve st (root s @ ''/'' @ bucket') \<longrightarrow>
        Get L s bucket key st = Get L s bucket' key st
        \<and> Put L s now bucket key body st = Put L s now bucket' key body st
        \<and> Delete L s bucket key st = Delete L s bucket' key st)
   \<and> Get L s (''./'' @ bucket) key st = Get L s bucket key st
   \<and> Put L s now (''./'' @ bucket) key body st = Put L s now bucket key body st
   \<and> Delete L s (''./'' @ bucket) key st = Delete L s bucket key st"
  using alias_dot same_directory [of st s bucket bucket']
  by (simp add: bucket_not_found_iff never_bad_request child_eq)

text \<open>
  The theorem at the sample store, with every digest function: the paths of the bucket
  strings \<^verbatim>\<open>./my-bucket\<close>, which \<^verbatim>\<open>validName\<close> rejects, and \<^verbatim>\<open>my-bucket\<close> resolve to the
  same location, and \<^verbatim>\<open>Get\<close> returns the body stored under \<^verbatim>\<open>my-bucket\<close> for both.
\<close>

theorem bucket_never_validated_witness:
  "\<forall>d. resolve (storedFs (withDigest d)) (root sampleStorage @ ''/'' @ ''./my-bucket'') =
        resolve (storedFs (withDigest d)) (root sampleStorage @ ''/'' @ ''my-bucket'')
     \<and> validName (withDigest d) ''./my-bucket'' \<noteq> None
     \<and> existPath sampleStorage ''./my-bucket'' (storedFs (withDigest d))
     \<and> Get (withDigest d) sampleStorage ''./my-bucket'' ''k'' (storedFs (withDigest d)) = Inr ''hello''
     \<and> Get (withDigest d) sampleStorage ''my-bucket'' ''k'' (storedFs (withDigest d)) = Inr ''hello''"
proof
  fix d
  let ?L = "withDigest d"
  have r: "resolve (storedFs ?L) (root sampleStorage @ ''/'' @ ''./my-bucket'') =
           resolve (storedFs ?L) (root sampleStorage @ ''/'' @ ''my-bucket'')"
    using resolve_dot [of "storedFs ?L" "root sampleStorage" "''my-bucket''"] by (simp add: child_eq)
  note t = bucket_never_validated [of ?L sampleStorage "''./my-bucket''" "''k''" "storedFs ?L" 0 "[]"
      "''my-bucket''"]
  from t r have g: "Get ?L sampleStorage ''./my-bucket'' ''k'' (storedFs ?L) =
                    Get ?L sampleStorage ''my-bucket'' ''k'' (storedFs ?L)"
    by blast
  from t g have e: "existPath sampleStorage ''./my-bucket'' (storedFs ?L)"
    by (auto simp: Get_sample BucketNotFound_def)
  show "resolve (storedFs ?L) (root sampleStorage @ ''/'' @ ''./my-bucket'') =
        resolve (storedFs ?L) (root sampleStorage @ ''/'' @ ''my-bucket'')
     \<and> validName ?L ''./my-bucket'' \<noteq> None
     \<and> existPath sampleStorage ''./my-bucket'' (storedFs ?L)
     \<and> Get ?L sampleStorage ''./my-bucket'' ''k'' (storedFs ?L) = Inr ''hello''
     \<and> Get ?L sampleStorage ''my-bucket'' ''k'' (storedFs ?L) = Inr ''hello''"
    using r g e by (simp add: Get_sample dot_slash_invalid)
qed

end
